theory Spec2Isabelle
  imports Main "HOL-Library.Multiset"
begin

text \<open>
  A breadth-first web crawler in Go.  The sources hold three revisions of the crawler:
  the oldest, whose \<^verbatim>\<open>work\<close> loop crawls one level per call (crawler.go, with result.go);
  the state-machine revision, whose scheduler goroutine runs state functions that return
  the next state function, with fetch and merge goroutines beside it; and the newest,
  which keeps a depth counter in the crawler and merges inside the fetch.  The
  state-machine revision is modelled whole, as a step function over the goroutines'
  atomic actions; the oldest with its \<^verbatim>\<open>work\<close> loop, its fetch and its merge, and with
  the scraping of result.go; of the newest, the functions that are among the sources.
\<close>

section \<open>URL filter\<close>

text \<open>
  A compiled pattern (\<^verbatim>\<open>*regexp.Regexp\<close>) is used by the crawler only through
  \<^verbatim>\<open>r.MatchString(u)\<close>.  The regular-expression engine is Go's standard library;
  a compiled pattern is therefore represented by its match predicate.
\<close>

datatype regexp = Regexp (MatchString: "string \<Rightarrow> bool")

text \<open>
  \<^verbatim>\<open>willCrawl\<close> (and the identical \<^verbatim>\<open>WillCrawl\<close> of the two older revisions):
  two \<^verbatim>\<open>range\<close> loops with early return, then the test on \<^verbatim>\<open>len(c.include)\<close>.
\<close>

fun willCrawl_include :: "regexp list \<Rightarrow> nat \<Rightarrow> string \<Rightarrow> bool" where
  "willCrawl_include [] n fullurl = (if n > 0 then False else True)"
| "willCrawl_include (r # rs) n fullurl =
     (if MatchString r fullurl then True else willCrawl_include rs n fullurl)"

fun willCrawl_exclude :: "regexp list \<Rightarrow> regexp list \<Rightarrow> string \<Rightarrow> bool" where
  "willCrawl_exclude [] inc fullurl = willCrawl_include inc (length inc) fullurl"
| "willCrawl_exclude (r # rs) inc fullurl =
     (if MatchString r fullurl then False else willCrawl_exclude rs inc fullurl)"

definition willCrawl :: "regexp list \<Rightarrow> regexp list \<Rightarrow> string \<Rightarrow> bool" where
  "willCrawl inc exc fullurl = willCrawl_exclude exc inc fullurl"

text \<open>The decision procedure in the words of the specification (section 4.6).\<close>

definition filter_spec :: "regexp list \<Rightarrow> regexp list \<Rightarrow> string \<Rightarrow> bool" where
  "filter_spec inc exc u =
     (if list_ex (\<lambda>p. MatchString p u) exc then False
      else if list_ex (\<lambda>p. MatchString p u) inc then True
      else if inc \<noteq> [] then False
      else True)"

section \<open>Data model\<close>

text \<open>The fields of \<^verbatim>\<open>url.URL\<close> that the crawler reads or writes.\<close>

record url =
  url_Scheme :: string
  url_Host :: string
  url_Path :: string
  url_RawQuery :: string
  url_Fragment :: string

text \<open>
  \<^verbatim>\<open>Address\<close>: the URL it holds (\<^verbatim>\<open>r.URL\<close> in result.go), its string form (\<^verbatim>\<open>Full\<close>, also
  returned by \<^verbatim>\<open>String()\<close>), the host, the scheme and the path that the robots matcher
  evaluates.  A \<^verbatim>\<open>*Address\<close> that may be \<^verbatim>\<open>nil\<close> is an \<open>address option\<close>.
\<close>

record address =
  Full :: string
  Host :: string
  Scheme :: string
  RobotsPath :: string
  URL :: url

record response =
  Status :: string
  StatusCode :: int
  Proto :: string
  ProtoMajor :: int
  ProtoMinor :: int
  Header :: "(string \<times> string list) list"

record link =
  Address :: "address option"
  Text :: string
  Nofollow :: bool

record result =
  Depth :: int
  Description :: string
  Title :: string
  H1 :: string
  Robots :: string
  Canonical :: string
  Status :: string
  StatusCode :: int
  Proto :: string
  ProtoMajor :: int
  ProtoMinor :: int
  Header :: "(string \<times> string) list"
  Links :: "link list"
  Hreflang :: "(string \<times> string) list"
  Address :: "address option"
  ResolvesTo :: "address option"

text \<open>\<^verbatim>\<open>type Node struct { Depth int; *Link }\<close>: a link with a depth.\<close>

record node = link +
  Depth :: int

record Config =
  Connections :: int
  RobotsUserAgent :: string
  Include :: "string list"
  Exclude :: "string list"
  Start :: string
  RespectNofollow :: bool
  MaxDepth :: int
  WaitTime :: string
  UserAgent :: string

text \<open>\<^verbatim>\<open>MakeResult\<close>: only the address and the depth are set; every other field has Go's
  zero value.\<close>

definition MakeResult :: "address option \<Rightarrow> int \<Rightarrow> result" where
  "MakeResult addr depth =
     \<lparr>result.Depth = depth, Description = [], Title = [], H1 = [], Robots = [],
      Canonical = [], result.Status = [], result.StatusCode = 0, result.Proto = [],
      result.ProtoMajor = 0, result.ProtoMinor = 0, result.Header = [], Links = [],
      Hreflang = [], result.Address = addr, ResolvesTo = None\<rparr>"

text \<open>\<^verbatim>\<open>http.Header.Get\<close>: the first value stored under the key, or the empty string.\<close>

definition Header_Get :: "(string \<times> string list) list \<Rightarrow> string \<Rightarrow> string" where
  "Header_Get h k = (case map_of h k of Some (v # vs) \<Rightarrow> v | _ \<Rightarrow> [])"

text \<open>\<^verbatim>\<open>linksToNodes\<close>: one node of the given depth per link, in order.\<close>

fun linksToNodes :: "int \<Rightarrow> link list \<Rightarrow> node list" where
  "linksToNodes depth [] = []"
| "linksToNodes depth (l # links) =
     \<lparr>link.Address = link.Address l, Text = Text l, Nofollow = Nofollow l, node.Depth = depth\<rparr>
       # linksToNodes depth links"

section \<open>Libraries and the network\<close>

text \<open>
  Go's \<^verbatim>\<open>int\<close> has 64 bits on the platforms the crawler is built for, and so has
  \<^verbatim>\<open>time.Duration\<close>; a sum or difference that leaves the range wraps around.
\<close>

definition int64 :: "int \<Rightarrow> int" where
  "int64 x = (x + 9223372036854775808) mod 18446744073709551616 - 9223372036854775808"

text \<open>A panic ends the program; these are the ones the crawler can run into.\<close>

datatype panic =
    IndexOutOfRange | NilDereference | SendOnClosedChannel | MakeChanSize | RegexpCompile

text \<open>What a call that may block or panic does.\<close>

datatype 'a outcome = Blocked | Panic panic | Ret 'a

text \<open>
  A parsed robots.txt (\<^verbatim>\<open>*robotstxt.RobotsData\<close>) is used only through
  \<^verbatim>\<open>TestAgent(path, agent)\<close>; a pointer that may be \<^verbatim>\<open>nil\<close> is a \<open>robotsdata option\<close>.
\<close>

datatype robotsdata = RobotsData (TestAgent: "string \<Rightarrow> string \<Rightarrow> bool")

text \<open>
  The call \<^verbatim>\<open>c.robots[host].TestAgent(path, agent)\<close> on the cached pointer, which the source
  makes with no test for \<^verbatim>\<open>nil\<close>.  \<^verbatim>\<open>TestAgent\<close> reads the fields of its receiver, so on a
  \<^verbatim>\<open>nil\<close> pointer the call panics with a nil dereference; a present matcher answers for
  itself.
\<close>

definition TestAgent_ptr :: "robotsdata option \<Rightarrow> string \<Rightarrow> string \<Rightarrow> panic + bool" where
  "TestAgent_ptr r path agent =
     (case r of None \<Rightarrow> Inl NilDereference | Some d \<Rightarrow> Inr (TestAgent d path agent))"

text \<open>
  The pure library functions the crawler calls: \<^verbatim>\<open>url.Parse\<close> (\<open>None\<close>: it returns an
  error and a nil URL), \<^verbatim>\<open>(*URL).ResolveReference\<close>, \<^verbatim>\<open>(*URL).String\<close>,
  \<^verbatim>\<open>time.ParseDuration\<close> and \<^verbatim>\<open>regexp.MustCompile\<close> (\<open>None\<close>: it panics).
\<close>

record lib =
  url_Parse :: "string \<Rightarrow> url option"
  ResolveReference :: "url \<Rightarrow> url \<Rightarrow> url"
  url_String :: "url \<Rightarrow> string"
  ParseDuration :: "string \<Rightarrow> int option"
  MustCompile :: "string \<Rightarrow> regexp option"

text \<open>
  Modelled from the spec: the repository's address file is not among the source files.
  By section 3 an address is made by parsing a raw string or by resolving a relative
  reference against a base, and fragments are stripped; \<^verbatim>\<open>Full\<close> is the string form of
  its URL, \<^verbatim>\<open>Host\<close> and \<^verbatim>\<open>Scheme\<close> are the URL's, and \<^verbatim>\<open>RobotsPath\<close> is the path with the
  query.  A string or reference that \<^verbatim>\<open>url.Parse\<close> rejects gives a nil address.
\<close>

definition address_of :: "lib \<Rightarrow> url \<Rightarrow> address" where
  "address_of L u =
     \<lparr>Full = url_String L u, Host = url_Host u, Scheme = url_Scheme u,
      RobotsPath = url_Path u @ (if url_RawQuery u = [] then [] else ''?'' @ url_RawQuery u),
      URL = u\<rparr>"

definition MakeAddressFromString :: "lib \<Rightarrow> string \<Rightarrow> address option" where
  "MakeAddressFromString L s =
     (case url_Parse L s of
        None \<Rightarrow> None
      | Some u \<Rightarrow> Some (address_of L (u\<lparr>url_Fragment := []\<rparr>)))"

definition MakeAddressFromRelative :: "lib \<Rightarrow> address \<Rightarrow> string \<Rightarrow> address option" where
  "MakeAddressFromRelative L base href =
     (case url_Parse L href of
        None \<Rightarrow> None
      | Some h \<Rightarrow> Some (address_of L ((ResolveReference L (URL base) h)\<lparr>url_Fragment := []\<rparr>)))"

text \<open>
  What \<^verbatim>\<open>http.Get\<close> of a robots.txt URL gives: an error, or a response with its status
  code and the matcher \<^verbatim>\<open>robotstxt.FromResponse\<close> makes of it (\<open>None\<close>: it returned an
  error and a nil matcher).
\<close>

datatype robots_get = GetError | GetResponse int "robotsdata option"

text \<open>
  What the body of a fetched page yields once parsed and scraped: the content fields, the
  hreflang pairs and the extracted links.
\<close>

record page =
  pTitle :: string
  pH1 :: string
  pDescription :: string
  pRobots :: string
  pCanonical :: string
  pHreflang :: "(string \<times> string) list"
  pLinks :: "link list"

text \<open>
  Modelled from the spec: the one-argument \<^verbatim>\<open>Hydrate(resp)\<close> of the two later revisions is
  not among the source files.  As section 4.2 says and as the two-argument \<^verbatim>\<open>Hydrate\<close> of
  result.go does, it records each header name once with its first value, the status
  line, code and protocol version, the scraped fields and the extracted links; the
  address and the depth are left as \<^verbatim>\<open>MakeResult\<close> set them.
\<close>

definition Hydrate_page :: "result \<Rightarrow> response \<Rightarrow> page \<Rightarrow> result" where
  "Hydrate_page r resp pg =
     r\<lparr>result.Header :=
         map (\<lambda>kv. (fst kv, Header_Get (response.Header resp) (fst kv))) (response.Header resp),
       result.Status := response.Status resp,
       result.StatusCode := response.StatusCode resp,
       result.Proto := response.Proto resp,
       result.ProtoMajor := response.ProtoMajor resp,
       result.ProtoMinor := response.ProtoMinor resp,
       Title := pTitle pg, H1 := pH1 pg, Description := pDescription pg,
       Robots := pRobots pg, Canonical := pCanonical pg,
       Hreflang := pHreflang pg, Links := pLinks pg\<rparr>"

text \<open>
  Modelled from the spec: \<^verbatim>\<open>MakeLink(base, href, text, nofollow)\<close> is not among the source
  files; by section 3 a link's target is the address made by resolving the reference
  against the base (\<open>None\<close>: a nil address).
\<close>

definition MakeLink :: "lib \<Rightarrow> address \<Rightarrow> string \<Rightarrow> string \<Rightarrow> bool \<Rightarrow> link" where
  "MakeLink L base href text nofollow =
     \<lparr>link.Address = MakeAddressFromRelative L base href, Text = text, Nofollow = nofollow\<rparr>"

text \<open>Modelled from the spec: \<^verbatim>\<open>MakeAbsoluteLink(s, text, nofollow)\<close>, also not among the
  source files, parses the string itself.\<close>

definition MakeAbsoluteLink :: "lib \<Rightarrow> string \<Rightarrow> string \<Rightarrow> bool \<Rightarrow> link" where
  "MakeAbsoluteLink L s text nofollow =
     \<lparr>link.Address = MakeAddressFromString L s, Text = text, Nofollow = nofollow\<rparr>"

definition MakeNode :: "lib \<Rightarrow> int \<Rightarrow> string \<Rightarrow> node" where
  "MakeNode L d s =
     (let l = MakeAbsoluteLink L s [] False
      in \<lparr>link.Address = link.Address l, Text = Text l, Nofollow = Nofollow l, node.Depth = d\<rparr>)"

section \<open>The state-machine crawler\<close>

text \<open>
  The \<^verbatim>\<open>Crawler\<close> struct of the state-machine revision.  A channel is its buffer: the
  semaphore \<^verbatim>\<open>connections\<close> is the number of tokens in it, \<^verbatim>\<open>results\<close> the list of
  results sent and not yet received; \<^verbatim>\<open>wg\<close> is the wait group's counter.  The channel
  \<^verbatim>\<open>newnodes\<close> is unbuffered and holds nothing.  \<^verbatim>\<open>LastRequestTime\<close> is \<open>None\<close> while
  it is the zero \<^verbatim>\<open>time.Time\<close>; \<open>include_pats\<close> and \<open>exclude_pats\<close> are the fields
  \<^verbatim>\<open>include\<close> and \<^verbatim>\<open>exclude\<close>.
\<close>

record Crawler =
  connections :: nat
  queue :: "node list"
  nextqueue :: "node list"
  wg :: nat
  Seen :: "string \<rightharpoonup> bool"
  results :: "result list"
  robots :: "string \<rightharpoonup> robotsdata option"
  LastRequestTime :: "int option"
  wait :: int
  include_pats :: "regexp list"
  exclude_pats :: "regexp list"
  Config :: Config

text \<open>The values of type \<^verbatim>\<open>crawlfn\<close>; \<^verbatim>\<open>nil\<close> is \<open>None\<close> of \<open>crawlfn option\<close>.\<close>

datatype crawlfn =
    CrawlStartQueue | CrawlNextQueue | CrawlStart | CrawlCheckRobots
  | CrawlWait | CrawlNext | CrawlDo | CrawlAwait

definition WillCrawl :: "Crawler \<Rightarrow> string \<Rightarrow> bool" where
  "WillCrawl c u = willCrawl (include_pats c) (exclude_pats c) u"

text \<open>\<^verbatim>\<open>time.Since\<close>: the difference saturates at the largest and the smallest duration, as it
  does for the zero time.\<close>

definition Since :: "int \<Rightarrow> int option \<Rightarrow> int" where
  "Since now t =
     (case t of
        None \<Rightarrow> 9223372036854775807
      | Some t0 \<Rightarrow> min 9223372036854775807 (max (- 9223372036854775808) (now - t0)))"

text \<open>\<^verbatim>\<open>addRobots\<close>, with the network as a function from the URL requested to what the
  request gives.\<close>

definition addRobots :: "lib \<Rightarrow> (string \<Rightarrow> robots_get) \<Rightarrow> Crawler \<Rightarrow> string \<Rightarrow> Crawler" where
  "addRobots L net c u =
     (case url_Parse L u of
        None \<Rightarrow> c
      | Some url \<Rightarrow>
          (let c1 = c\<lparr>robots := (robots c)(url_Host url \<mapsto> None)\<rparr>
           in case net (url_Scheme url @ ''://'' @ url_Host url @ ''/robots.txt'') of
                GetError \<Rightarrow> c1
              | GetResponse code parsed \<Rightarrow>
                  if code \<noteq> 200 then c1
                  else (case parsed of
                          None \<Rightarrow> c1
                        | Some r \<Rightarrow> c1\<lparr>robots := (robots c1)(url_Host url \<mapsto> Some r)\<rparr>)))"

text \<open>A map read \<^verbatim>\<open>c.robots[host]\<close> gives \<^verbatim>\<open>nil\<close> for a missing key.\<close>

definition robots_at :: "Crawler \<Rightarrow> string \<Rightarrow> robotsdata option" where
  "robots_at c host = (case robots c host of None \<Rightarrow> None | Some r \<Rightarrow> r)"

definition crawlStartQueue :: "Crawler \<Rightarrow> crawlfn option" where
  "crawlStartQueue c = (if length (queue c) > 0 then Some CrawlStart else None)"

definition crawlNextQueue :: "Crawler \<Rightarrow> crawlfn option \<times> Crawler" where
  "crawlNextQueue c = (Some CrawlStartQueue, c\<lparr>queue := nextqueue c, nextqueue := []\<rparr>)"

definition crawlStart :: "int \<Rightarrow> Crawler \<Rightarrow> crawlfn option outcome" where
  "crawlStart now c =
     (case queue c of
        [] \<Rightarrow> Panic IndexOutOfRange
      | n # _ \<Rightarrow>
          if Since now (LastRequestTime c) < wait c then Ret (Some CrawlWait)
          else if node.Depth n > MaxDepth (Config c) \<and> MaxDepth (Config c) \<ge> 0
               then Ret (Some CrawlNext)
          else (case link.Address n of
                  None \<Rightarrow> Panic NilDereference
                | Some a \<Rightarrow>
                    if \<not> WillCrawl c (Full a) then Ret (Some CrawlNext)
                    else Ret (Some CrawlDo)))"

text \<open>The result sent for an entry that robots.txt denies.\<close>

definition blocked_result :: "node \<Rightarrow> result" where
  "blocked_result n =
     (MakeResult (link.Address n) (node.Depth n))\<lparr>result.Status := ''Blocked by robots.txt''\<rparr>"

text \<open>The result channel has capacity 20 in this revision.\<close>

definition results_cap :: nat where
  "results_cap = 20"

definition crawlCheckRobots ::
  "lib \<Rightarrow> (string \<Rightarrow> robots_get) \<Rightarrow> Crawler \<Rightarrow> (crawlfn option \<times> Crawler) outcome" where
  "crawlCheckRobots L net c =
     (case queue c of
        [] \<Rightarrow> Panic IndexOutOfRange
      | n # _ \<Rightarrow>
          (case link.Address n of
             None \<Rightarrow> Panic NilDereference
           | Some a \<Rightarrow>
               (let c1 = (if robots c (Host a) = None then addRobots L net c (Full a) else c)
                in case TestAgent_ptr (robots_at c1 (Host a)) (RobotsPath a)
                          (RobotsUserAgent (Config c1)) of
                     Inl p \<Rightarrow> Panic p
                   | Inr allowed \<Rightarrow>
                       if \<not> allowed
                       then (if length (results c1) < results_cap
                             then Ret (Some CrawlDo,
                                    c1\<lparr>results := results c1 @ [blocked_result n]\<rparr>)
                             else Blocked)
                       else Ret (Some CrawlDo, c1))))"

text \<open>\<^verbatim>\<open>crawlWait\<close> returns the next state and the time slept: \<^verbatim>\<open>time.Sleep\<close> of a duration
  that is not positive returns at once.\<close>

definition crawlWait :: "int \<Rightarrow> Crawler \<Rightarrow> crawlfn option \<times> int" where
  "crawlWait now c = (Some CrawlStart, max 0 (int64 (wait c - Since now (LastRequestTime c))))"

definition crawlNext :: "Crawler \<Rightarrow> (crawlfn option \<times> Crawler) outcome" where
  "crawlNext c =
     (case queue c of
        [] \<Rightarrow> Panic IndexOutOfRange
      | _ # rest \<Rightarrow>
          (let c1 = c\<lparr>queue := rest\<rparr>
           in if length (queue c1) > 0 then Ret (Some CrawlStart, c1)
              else Ret (Some CrawlAwait, c1)))"

subsection \<open>Goroutines\<close>

text \<open>
  A fetch goroutine is before its \<^verbatim>\<open>client.Get\<close>, or holds the result it is about to
  send on \<^verbatim>\<open>c.results\<close>, or is about to return (the deferred receive from
  \<^verbatim>\<open>c.connections\<close>), or has returned.
\<close>

datatype fetch_pc = FGet | FSend result | FReturn | FDone

record fetch_task =
  fnode :: node
  fpc :: fetch_pc

text \<open>
  A merge goroutine is blocked in its receive from \<^verbatim>\<open>c.newnodes\<close>, or in its loop with
  the nodes still to be looked at, or done (after \<^verbatim>\<open>wg.Done\<close>).
\<close>

datatype merge_task = MRecv | MLoop "node list" | MDone

text \<open>
  The whole program: the crawler, the scheduler goroutine's next state function and
  whether it has closed \<^verbatim>\<open>c.results\<close>, the fetch goroutines and merge goroutines in the
  order they were spawned, the goroutines blocked in a send on \<^verbatim>\<open>c.newnodes\<close> with the
  slice each sends (\<open>None\<close> once it is received), the results \<^verbatim>\<open>Next()\<close> has returned,
  the clock, and the panic that ended the program, if any.
\<close>

record system =
  crw :: Crawler
  next_fn :: "crawlfn option"
  closed :: bool
  fetches :: "fetch_task list"
  sends :: "node list option list"
  merges :: "merge_task list"
  delivered :: "result list"
  clock :: int
  panicked :: "panic option"

text \<open>\<^verbatim>\<open>crawlDo\<close>: take a connection slot (blocking while the semaphore is full), reset
  the wait, spawn the fetch, add one to the wait group and spawn a merge.\<close>

definition crawlDo :: "int \<Rightarrow> system \<Rightarrow> (crawlfn option \<times> system) outcome" where
  "crawlDo now s =
     (let c = crw s in
      case queue c of
        [] \<Rightarrow> Panic IndexOutOfRange
      | n # _ \<Rightarrow>
          if int (connections c) < Connections (Config c)
          then Ret (Some CrawlNext,
                 s\<lparr>crw := c\<lparr>connections := connections c + 1,
                             LastRequestTime := Some now,
                             wg := wg c + 1\<rparr>,
                   fetches := fetches s @ [\<lparr>fnode = n, fpc = FGet\<rparr>],
                   merges := merges s @ [MRecv]\<rparr>)
          else Blocked)"

text \<open>\<^verbatim>\<open>crawlAwait\<close>: \<^verbatim>\<open>wg.Wait()\<close> blocks until the counter is zero.\<close>

definition crawlAwait :: "Crawler \<Rightarrow> crawlfn option outcome" where
  "crawlAwait c = (if wg c = 0 then Ret (Some CrawlNextQueue) else Blocked)"

text \<open>One iteration of the loop of \<^verbatim>\<open>merge\<close>; the part under the mutex is one step.\<close>

definition merge_node :: "Crawler \<Rightarrow> node \<Rightarrow> Crawler" where
  "merge_node c n =
     (case link.Address n of
        None \<Rightarrow> c
      | Some a \<Rightarrow>
          if \<not> WillCrawl c (Full a) then c
          else (case Seen c (Full a) of
                  Some _ \<Rightarrow> c
                | None \<Rightarrow>
                    if \<not> (Nofollow n \<and> RespectNofollow (Config c))
                    then c\<lparr>Seen := (Seen c)(Full a \<mapsto> True),
                           nextqueue := nextqueue c @ [n]\<rparr>
                    else c))"

text \<open>
  \<^verbatim>\<open>fetch\<close> after \<^verbatim>\<open>client.Get\<close> has returned: the result it will send and the slice its
  sender goroutine will send on \<^verbatim>\<open>c.newnodes\<close>; on an error no result and an empty slice.
\<close>

definition fetch :: "lib \<Rightarrow> node \<Rightarrow> address \<Rightarrow> (response \<times> page) option \<Rightarrow> result option \<times> node list" where
  "fetch L n a got =
     (let result0 = MakeResult (link.Address n) (node.Depth n) in
      case got of
        None \<Rightarrow> (None, [])
      | Some (resp, pg) \<Rightarrow>
          (let result1 = Hydrate_page result0 resp pg;
               links = Links result1;
               result2 = result1\<lparr>ResolvesTo := result.Address result1\<rparr>
           in if response.StatusCode resp \<ge> 300 \<and> response.StatusCode resp < 400
              then (Some (result2\<lparr>ResolvesTo :=
                             MakeAddressFromRelative L a (Header_Get (response.Header resp) ''Location'')\<rparr>),
                    linksToNodes (int64 (node.Depth n + 1))
                      [MakeLink L a (Header_Get (response.Header resp) ''Location'') [] False])
              else (Some result2, linksToNodes (int64 (node.Depth n + 1)) links)))"

subsection \<open>Steps of the program\<close>

text \<open>
  One event is one atomic action of one goroutine, with what the outside world answers:
  \<^item> \<open>Sched now net\<close>: the scheduler goroutine calls its current state function (or, once
    that is \<^verbatim>\<open>nil\<close>, closes \<^verbatim>\<open>c.results\<close>); \<open>now\<close> is what the clock reads and \<open>net\<close>
    what a robots.txt request would give;
  \<^item> \<open>Get i net\<close>: the \<^verbatim>\<open>client.Get\<close> of fetch \<open>i\<close> returns what \<open>net\<close> gives for its URL,
    and the fetch spawns the goroutine that sends its nodes on \<^verbatim>\<open>c.newnodes\<close>;
  \<^item> \<open>Send i\<close>: fetch \<open>i\<close> sends its result on \<^verbatim>\<open>c.results\<close>;
  \<^item> \<open>Return i\<close>: fetch \<open>i\<close> returns and its slot in \<^verbatim>\<open>c.connections\<close> is released;
  \<^item> \<open>Recv m j\<close>: merge \<open>m\<close> receives the slice of sender \<open>j\<close> on \<^verbatim>\<open>c.newnodes\<close>;
  \<^item> \<open>Merge m\<close>: merge \<open>m\<close> runs one iteration of its loop, or \<^verbatim>\<open>wg.Done\<close> after the last;
  \<^item> \<open>Next\<close>: the consumer's \<^verbatim>\<open>Next()\<close> receives a result.
  A step gives \<open>None\<close> when the action is not possible in the state (the goroutine is
  elsewhere, or blocked).  After a panic nothing runs.
\<close>

datatype event =
    Sched int "string \<Rightarrow> robots_get"
  | Get nat "string \<Rightarrow> (response \<times> page) option"
  | Send nat
  | Return nat
  | Recv nat nat
  | Merge nat
  | Next

definition finish :: "system \<Rightarrow> (crawlfn option \<times> system) outcome \<Rightarrow> system option" where
  "finish s0 r =
     (case r of
        Blocked \<Rightarrow> None
      | Panic p \<Rightarrow> Some (s0\<lparr>panicked := Some p\<rparr>)
      | Ret (f, s1) \<Rightarrow> Some (s1\<lparr>next_fn := f\<rparr>))"

fun with_crw :: "system \<Rightarrow> (crawlfn option \<times> Crawler) outcome \<Rightarrow> (crawlfn option \<times> system) outcome" where
  "with_crw s Blocked = Blocked"
| "with_crw s (Panic p) = Panic p"
| "with_crw s (Ret (f, c)) = Ret (f, s\<lparr>crw := c\<rparr>)"

fun with_fn :: "system \<Rightarrow> crawlfn option outcome \<Rightarrow> (crawlfn option \<times> system) outcome" where
  "with_fn s Blocked = Blocked"
| "with_fn s (Panic p) = Panic p"
| "with_fn s (Ret f) = Ret (f, s)"

text \<open>The loop \<^verbatim>\<open>for f := crawlStartQueue; f != nil; { f = f(c) }\<close>, one call at a time,
  and the \<^verbatim>\<open>close(c.results)\<close> after it.\<close>

definition sched :: "lib \<Rightarrow> int \<Rightarrow> (string \<Rightarrow> robots_get) \<Rightarrow> system \<Rightarrow> system option" where
  "sched L now net s =
     (if now < clock s then None
      else
        (let s0 = s\<lparr>clock := now\<rparr>; c = crw s in
         case next_fn s of
           None \<Rightarrow> if closed s then None else Some (s0\<lparr>closed := True\<rparr>)
         | Some CrawlStartQueue \<Rightarrow> finish s0 (Ret (crawlStartQueue c, s0))
         | Some CrawlNextQueue \<Rightarrow> finish s0 (with_crw s0 (Ret (crawlNextQueue c)))
         | Some CrawlStart \<Rightarrow> finish s0 (with_fn s0 (crawlStart now c))
         | Some CrawlCheckRobots \<Rightarrow> finish s0 (with_crw s0 (crawlCheckRobots L net c))
         | Some CrawlWait \<Rightarrow>
             finish s0 (Ret (fst (crawlWait now c), s0\<lparr>clock := now + snd (crawlWait now c)\<rparr>))
         | Some CrawlNext \<Rightarrow> finish s0 (with_crw s0 (crawlNext c))
         | Some CrawlDo \<Rightarrow> finish s0 (crawlDo now s0)
         | Some CrawlAwait \<Rightarrow> finish s0 (with_fn s0 (crawlAwait c))))"

definition fetch_get :: "lib \<Rightarrow> nat \<Rightarrow> (string \<Rightarrow> (response \<times> page) option) \<Rightarrow> system \<Rightarrow> system option" where
  "fetch_get L i net s =
     (if i < length (fetches s) then
        (let t = fetches s ! i in
         case fpc t of
           FGet \<Rightarrow>
             (case link.Address (fnode t) of
                None \<Rightarrow> Some (s\<lparr>panicked := Some NilDereference\<rparr>)
              | Some a \<Rightarrow>
                  (case fetch L (fnode t) a (net (Full a)) of
                     (None, nodes) \<Rightarrow>
                       Some (s\<lparr>fetches := (fetches s)[i := t\<lparr>fpc := FReturn\<rparr>],
                               sends := sends s @ [Some nodes]\<rparr>)
                   | (Some r, nodes) \<Rightarrow>
                       Some (s\<lparr>fetches := (fetches s)[i := t\<lparr>fpc := FSend r\<rparr>],
                               sends := sends s @ [Some nodes]\<rparr>)))
         | _ \<Rightarrow> None)
      else None)"

definition fetch_send :: "nat \<Rightarrow> system \<Rightarrow> system option" where
  "fetch_send i s =
     (if i < length (fetches s) then
        (let t = fetches s ! i in
         case fpc t of
           FSend r \<Rightarrow>
             if closed s then Some (s\<lparr>panicked := Some SendOnClosedChannel\<rparr>)
             else if length (results (crw s)) < results_cap
             then Some (s\<lparr>crw := (crw s)\<lparr>results := results (crw s) @ [r]\<rparr>,
                          fetches := (fetches s)[i := t\<lparr>fpc := FReturn\<rparr>]\<rparr>)
             else None
         | _ \<Rightarrow> None)
      else None)"

definition fetch_return :: "nat \<Rightarrow> system \<Rightarrow> system option" where
  "fetch_return i s =
     (if i < length (fetches s) then
        (let t = fetches s ! i in
         case fpc t of
           FReturn \<Rightarrow>
             Some (s\<lparr>crw := (crw s)\<lparr>connections := connections (crw s) - 1\<rparr>,
                     fetches := (fetches s)[i := t\<lparr>fpc := FDone\<rparr>]\<rparr>)
         | _ \<Rightarrow> None)
      else None)"

definition merge_recv :: "nat \<Rightarrow> nat \<Rightarrow> system \<Rightarrow> system option" where
  "merge_recv m j s =
     (if m < length (merges s) \<and> j < length (sends s) then
        (case (merges s ! m, sends s ! j) of
           (MRecv, Some nodes) \<Rightarrow>
             Some (s\<lparr>merges := (merges s)[m := MLoop nodes], sends := (sends s)[j := None]\<rparr>)
         | _ \<Rightarrow> None)
      else None)"

definition merge_step :: "nat \<Rightarrow> system \<Rightarrow> system option" where
  "merge_step m s =
     (if m < length (merges s) then
        (case merges s ! m of
           MLoop (n # ns) \<Rightarrow>
             Some (s\<lparr>crw := merge_node (crw s) n, merges := (merges s)[m := MLoop ns]\<rparr>)
         | MLoop [] \<Rightarrow>
             Some (s\<lparr>crw := (crw s)\<lparr>wg := wg (crw s) - 1\<rparr>, merges := (merges s)[m := MDone]\<rparr>)
         | _ \<Rightarrow> None)
      else None)"

definition consumer_next :: "system \<Rightarrow> system option" where
  "consumer_next s =
     (case results (crw s) of
        [] \<Rightarrow> None
      | r # rs \<Rightarrow> Some (s\<lparr>crw := (crw s)\<lparr>results := rs\<rparr>, delivered := delivered s @ [r]\<rparr>))"

definition step :: "lib \<Rightarrow> event \<Rightarrow> system \<Rightarrow> system option" where
  "step L e s =
     (if panicked s \<noteq> None then None
      else case e of
             Sched now net \<Rightarrow> sched L now net s
           | Get i net \<Rightarrow> fetch_get L i net s
           | Send i \<Rightarrow> fetch_send i s
           | Return i \<Rightarrow> fetch_return i s
           | Recv m j \<Rightarrow> merge_recv m j s
           | Merge m \<Rightarrow> merge_step m s
           | Next \<Rightarrow> consumer_next s)"

fun exec :: "lib \<Rightarrow> event list \<Rightarrow> system \<Rightarrow> system option" where
  "exec L [] s = Some s"
| "exec L (e # es) s = (case step L e s of None \<Rightarrow> None | Some s1 \<Rightarrow> exec L es s1)"

text \<open>Every result sent on \<^verbatim>\<open>c.results\<close> so far, in the order sent, which is the order
  successive calls of \<^verbatim>\<open>Next()\<close> return them in.\<close>

definition emitted :: "system \<Rightarrow> result list" where
  "emitted s = delivered s @ results (crw s)"

subsection \<open>Starting a crawl\<close>

fun preparePatterns :: "lib \<Rightarrow> string list \<Rightarrow> regexp list option" where
  "preparePatterns L [] = Some []"
| "preparePatterns L (p # ps) =
     (case MustCompile L p of
        None \<Rightarrow> None
      | Some r \<Rightarrow> (case preparePatterns L ps of None \<Rightarrow> None | Some rs \<Rightarrow> Some (r # rs)))"

text \<open>The loop \<^verbatim>\<open>for _, v := range c.queue { c.Seen[v.Address.String()] = true }\<close>.\<close>

fun seed_Seen :: "(string \<rightharpoonup> bool) \<Rightarrow> node list \<Rightarrow> (string \<rightharpoonup> bool) option" where
  "seed_Seen m [] = Some m"
| "seed_Seen m (v # vs) =
     (case link.Address v of
        None \<Rightarrow> None
      | Some a \<Rightarrow> seed_Seen (m(Full a \<mapsto> True)) vs)"

definition CrawlList :: "lib \<Rightarrow> Config \<Rightarrow> node list \<Rightarrow> panic + system" where
  "CrawlList L config q =
     (let w = (case ParseDuration L (WaitTime config) of None \<Rightarrow> 0 | Some d \<Rightarrow> d) in
      if Connections config < 0 then Inl MakeChanSize
      else case preparePatterns L (Include config) of
        None \<Rightarrow> Inl RegexpCompile
      | Some inc \<Rightarrow>
          (case preparePatterns L (Exclude config) of
             None \<Rightarrow> Inl RegexpCompile
           | Some exc \<Rightarrow>
               (case seed_Seen Map.empty q of
                  None \<Rightarrow> Inl NilDereference
                | Some seen \<Rightarrow>
                    Inr \<lparr>crw = \<lparr>connections = 0, queue = q, nextqueue = [], wg = 0,
                                Seen = seen, results = [], robots = Map.empty,
                                LastRequestTime = None, wait = w,
                                include_pats = inc, exclude_pats = exc, Config = config\<rparr>,
                         next_fn = Some CrawlStartQueue, closed = False, fetches = [],
                         sends = [], merges = [], delivered = [], clock = 0,
                         panicked = None\<rparr>)))"

definition Crawl :: "lib \<Rightarrow> Config \<Rightarrow> panic + system" where
  "Crawl L config = CrawlList L config [MakeNode L 0 (Start config)]"

subsection \<open>The queue head\<close>

text \<open>The state functions that read \<^verbatim>\<open>c.queue[0]\<close> or slice \<^verbatim>\<open>c.queue[1:]\<close>.\<close>

definition needs_head :: "crawlfn option \<Rightarrow> bool" where
  "needs_head f =
     (f = Some CrawlStart \<or> f = Some CrawlCheckRobots \<or> f = Some CrawlWait
      \<or> f = Some CrawlNext \<or> f = Some CrawlDo)"

definition queue_ok :: "system \<Rightarrow> bool" where
  "queue_ok s =
     (panicked s \<noteq> Some IndexOutOfRange \<and> (needs_head (next_fn s) \<longrightarrow> queue (crw s) \<noteq> []))"

section \<open>Scraping a document\<close>

text \<open>A parsed document (\<^verbatim>\<open>*html.Node\<close>): the document node, elements with their tag,
  attributes and children, and text.\<close>

datatype hnode =
    Document "hnode list"
  | Element string "(string \<times> string) list" "hnode list"
  | TextNode string

text \<open>
  Modelled from the spec: the repository's \<^verbatim>\<open>scrape\<close> package is not among the source
  files.  By section 4.2, \<^verbatim>\<open>GetNodesByTagName\<close> enumerates all elements of the tag in the tree (in
  document order), \<^verbatim>\<open>GetText\<close> is the concatenated text of an element, and
  \<^verbatim>\<open>GetAttribute\<close> is the value of the named attribute of the node it is given, empty
  when the node has none.
\<close>

fun GetNodesByTagName :: "string \<Rightarrow> hnode \<Rightarrow> hnode list" where
  "GetNodesByTagName tag (Document cs) = concat (map (GetNodesByTagName tag) cs)"
| "GetNodesByTagName tag (Element t as cs) =
     (if t = tag then [Element t as cs] else []) @ concat (map (GetNodesByTagName tag) cs)"
| "GetNodesByTagName tag (TextNode x) = []"

fun GetText :: "hnode \<Rightarrow> string" where
  "GetText (Document cs) = concat (map GetText cs)"
| "GetText (Element t as cs) = concat (map GetText cs)"
| "GetText (TextNode x) = x"

fun GetAttribute :: "string \<Rightarrow> hnode \<Rightarrow> string" where
  "GetAttribute key (Element t as cs) = (case map_of as key of None \<Rightarrow> [] | Some v \<Rightarrow> v)"
| "GetAttribute key n = []"

text \<open>
  Modelled from the spec: \<^verbatim>\<open>QueryNodes(tag, attrs, doc)\<close> and \<^verbatim>\<open>QueryNode\<close> of the same
  package give the elements of the tag that carry each of the given attribute values, in
  document order, and the first of them (\<open>None\<close>: a nil node); \<^verbatim>\<open>GetText\<close> and
  \<^verbatim>\<open>GetAttribute\<close> of a nil node are the empty string.
\<close>

definition QueryNodes :: "string \<Rightarrow> (string \<times> string) list \<Rightarrow> hnode \<Rightarrow> hnode list" where
  "QueryNodes tag want doc =
     filter (\<lambda>x. list_all (\<lambda>kv. GetAttribute (fst kv) x = snd kv) want) (GetNodesByTagName tag doc)"

definition QueryNode :: "string \<Rightarrow> (string \<times> string) list \<Rightarrow> hnode \<Rightarrow> hnode option" where
  "QueryNode tag want doc = (case QueryNodes tag want doc of [] \<Rightarrow> None | x # _ \<Rightarrow> Some x)"

definition GetText_ptr :: "hnode option \<Rightarrow> string" where
  "GetText_ptr x = (case x of None \<Rightarrow> [] | Some e \<Rightarrow> GetText e)"

definition GetAttribute_ptr :: "string \<Rightarrow> hnode option \<Rightarrow> string" where
  "GetAttribute_ptr key x = (case x of None \<Rightarrow> [] | Some e \<Rightarrow> GetAttribute key e)"

text \<open>
  \<^verbatim>\<open>getLinks(base, n)\<close> of result.go.  The error of \<^verbatim>\<open>url.Parse\<close> is dropped; with a nil
  \<^verbatim>\<open>h\<close> the call \<^verbatim>\<open>base.ResolveReference(h)\<close> dereferences nil.  The three-argument
  \<^verbatim>\<open>MakeLink\<close> of this revision takes the absolute URL as a string, as
  \<^verbatim>\<open>MakeAbsoluteLink\<close> does.  The nofollow flag is computed from \<^verbatim>\<open>n\<close>, the node the
  function was given, as the source has it.
\<close>

fun getLinks_loop :: "lib \<Rightarrow> url \<Rightarrow> hnode \<Rightarrow> hnode list \<Rightarrow> panic + link list" where
  "getLinks_loop L base n [] = Inr []"
| "getLinks_loop L base n (a # els) =
     (case url_Parse L (GetAttribute ''href'' a) of
        None \<Rightarrow> Inl NilDereference
      | Some h \<Rightarrow>
          (let t = (ResolveReference L base h)\<lparr>url_Fragment := []\<rparr>;
               l = MakeAbsoluteLink L (url_String L t) (GetText a)
                     (GetAttribute ''rel'' n = ''nofollow'')
           in case getLinks_loop L base n els of
                Inl e \<Rightarrow> Inl e
              | Inr links \<Rightarrow> Inr (l # links)))"

definition getLinks :: "lib \<Rightarrow> url \<Rightarrow> hnode \<Rightarrow> panic + link list" where
  "getLinks L base n = getLinks_loop L base n (GetNodesByTagName ''a'' n)"

text \<open>The URL a link of \<^verbatim>\<open>getLinks\<close> is made from: the \<^verbatim>\<open>href\<close> of the element, parsed,
  resolved against the base, with the fragment cleared.\<close>

definition link_url :: "lib \<Rightarrow> url \<Rightarrow> hnode \<Rightarrow> url option" where
  "link_url L base a =
     (case url_Parse L (GetAttribute ''href'' a) of
        None \<Rightarrow> None
      | Some h \<Rightarrow> Some ((ResolveReference L base h)\<lparr>url_Fragment := []\<rparr>))"

text \<open>
  \<^verbatim>\<open>scrapeResult\<close> and \<^verbatim>\<open>getHreflang\<close> of result.go; a \<^verbatim>\<open>*Hreflang\<close> made by
  \<^verbatim>\<open>MakeHreflang(href, lang)\<close> is the pair of the two strings.
\<close>

definition scrapeResult :: "result \<Rightarrow> hnode \<Rightarrow> result" where
  "scrapeResult n doc =
     n\<lparr>Title := GetText_ptr (QueryNode ''title'' [] doc),
       H1 := GetText_ptr (QueryNode ''h1'' [] doc),
       Description :=
         GetAttribute_ptr ''content'' (QueryNode ''meta'' [(''name'', ''description'')] doc),
       Robots := GetAttribute_ptr ''content'' (QueryNode ''meta'' [(''name'', ''robots'')] doc),
       Canonical := GetAttribute_ptr ''href'' (QueryNode ''link'' [(''rel'', ''canonical'')] doc)\<rparr>"

definition getHreflang :: "url \<Rightarrow> hnode \<Rightarrow> (string \<times> string) list" where
  "getHreflang base n =
     map (\<lambda>x. (GetAttribute ''href'' x, GetAttribute ''hreflang'' x))
       (filter (\<lambda>x. GetAttribute ''href'' x \<noteq> []) (QueryNodes ''link'' [(''rel'', ''alternate'')] n))"

text \<open>
  The two-argument \<^verbatim>\<open>Hydrate(resp, doc)\<close> of result.go: the header pairs, the fields of the
  response, the scraped fields, the hreflang pairs and the links.  \<^verbatim>\<open>r.URL\<close> is the URL of
  the result's address, a nil dereference when the address is nil; a panic of
  \<^verbatim>\<open>getLinks\<close> is a panic of \<^verbatim>\<open>Hydrate\<close>.
\<close>

definition Hydrate :: "lib \<Rightarrow> result \<Rightarrow> response \<Rightarrow> hnode \<Rightarrow> panic + result" where
  "Hydrate L r resp doc =
     (let r1 = scrapeResult
                 (r\<lparr>result.Header :=
                      result.Header r
                        @ map (\<lambda>kv. (fst kv, Header_Get (response.Header resp) (fst kv)))
                            (response.Header resp),
                    result.Status := response.Status resp,
                    result.StatusCode := response.StatusCode resp,
                    result.Proto := response.Proto resp,
                    result.ProtoMajor := response.ProtoMajor resp,
                    result.ProtoMinor := response.ProtoMinor resp\<rparr>) doc
      in case result.Address r1 of
           None \<Rightarrow> Inl NilDereference
         | Some a \<Rightarrow>
             (case getLinks L (URL a) doc of
                Inl p \<Rightarrow> Inl p
              | Inr links \<Rightarrow> Inr (r1\<lparr>Hreflang := getHreflang (URL a) doc, Links := links\<rparr>)))"

section \<open>The revision with a work loop\<close>

text \<open>
  The oldest revision (crawler.go, with result.go) has no state functions: \<^verbatim>\<open>work\<close>
  ranges over the queue, decides for each node and spawns the fetches, waits for them and
  merges what they found.  Its crawler has the fields of the record above that it uses;
  both its channels \<^verbatim>\<open>connections\<close> and \<^verbatim>\<open>results\<close> have capacity 20.  Its \<^verbatim>\<open>addRobots\<close>
  does not look at the status code and drops the error of \<^verbatim>\<open>robotstxt.FromResponse\<close>: it
  stores the matcher that call returns.
\<close>

definition addRobots_work :: "lib \<Rightarrow> (string \<Rightarrow> robots_get) \<Rightarrow> Crawler \<Rightarrow> string \<Rightarrow> Crawler" where
  "addRobots_work L net c u =
     (case url_Parse L u of
        None \<Rightarrow> c
      | Some url \<Rightarrow>
          (let c1 = c\<lparr>robots := (robots c)(url_Host url \<mapsto> None)\<rparr>
           in case net (url_Scheme url @ ''://'' @ url_Host url @ ''/robots.txt'') of
                GetError \<Rightarrow> c1
              | GetResponse code parsed \<Rightarrow>
                  c1\<lparr>robots := (robots c1)(url_Host url \<mapsto> parsed)\<rparr>))"

text \<open>
  What the \<^verbatim>\<open>switch\<close> in the loop of \<^verbatim>\<open>work\<close> does with one node, and the \<^verbatim>\<open>resetWait\<close>
  after it: \<^verbatim>\<open>continue\<close>, or leave the switch, after which the loop spawns the fetch.  A
  Go \<^verbatim>\<open>switch\<close> runs the first case that holds and no other, so a node whose host had no
  matcher cached is not made to wait.  The clock reads \<open>now\<close> when the node is looked at;
  a sleep moves it on.
\<close>

datatype work_action = Continue | Spawn

definition work_node ::
  "lib \<Rightarrow> (string \<Rightarrow> robots_get) \<Rightarrow> int \<Rightarrow> Crawler \<Rightarrow> node \<Rightarrow> (work_action \<times> Crawler) outcome" where
  "work_node L net now c n =
     (if node.Depth n > MaxDepth (Config c) \<and> MaxDepth (Config c) \<ge> 0 then Ret (Continue, c)
      else case link.Address n of
        None \<Rightarrow> Panic NilDereference
      | Some a \<Rightarrow>
          if \<not> WillCrawl c (Full a) then Ret (Continue, c)
          else if robots_at c (Host a) = None then
            (let c1 = (if robots c (Host a) = None then addRobots_work L net c (Full a) else c)
             in case TestAgent_ptr (robots_at c1 (Host a)) (RobotsPath a)
                       (RobotsUserAgent (Config c1)) of
                  Inl p \<Rightarrow> Panic p
                | Inr allowed \<Rightarrow>
                    if \<not> allowed
                    then (if length (results c1) < results_cap
                          then Ret (Continue, c1\<lparr>results := results c1 @ [blocked_result n]\<rparr>)
                          else Blocked)
                    else Ret (Spawn, c1\<lparr>LastRequestTime := Some now\<rparr>))
          else (case TestAgent_ptr (robots_at c (Host a)) (RobotsPath a)
                       (RobotsUserAgent (Config c)) of
                  Inl p \<Rightarrow> Panic p
                | Inr allowed \<Rightarrow>
                    if \<not> allowed
                    then (if length (results c) < results_cap
                          then Ret (Continue, c\<lparr>results := results c @ [blocked_result n]\<rparr>)
                          else Blocked)
                    else Ret (Spawn,
                           c\<lparr>LastRequestTime :=
                               Some (if Since now (LastRequestTime c) < wait c
                                     then now + max 0 (int64 (wait c - Since now (LastRequestTime c)))
                                     else now)\<rparr>)))"

text \<open>The loop over the queue: the nodes whose fetch it spawns, in order, and the crawler
  after it.  The clock stands still but for the sleeps.\<close>

fun work_loop ::
  "lib \<Rightarrow> (string \<Rightarrow> robots_get) \<Rightarrow> int \<Rightarrow> Crawler \<Rightarrow> node list \<Rightarrow> (node list \<times> Crawler) outcome" where
  "work_loop L net now c [] = Ret ([], c)"
| "work_loop L net now c (n # ns) =
     (case work_node L net now c n of
        Blocked \<Rightarrow> Blocked
      | Panic p \<Rightarrow> Panic p
      | Ret (act, c1) \<Rightarrow>
          (case work_loop L net
                  (case LastRequestTime c1 of None \<Rightarrow> now | Some t \<Rightarrow> max now t) c1 ns of
             Blocked \<Rightarrow> Blocked
           | Panic p \<Rightarrow> Panic p
           | Ret (spawned, c2) \<Rightarrow> Ret ((if act = Spawn then [n] else []) @ spawned, c2)))"

text \<open>
  \<^verbatim>\<open>fetch\<close> of this revision, from taking its connection slot to its return, where the slot
  is released: what \<^verbatim>\<open>client.Get\<close> and \<^verbatim>\<open>html.Parse\<close> give is \<open>None\<close> when the request
  fails and a response without a tree when the parse fails.  The state is the crawler and
  the slices handed to the goroutines that send them on \<^verbatim>\<open>c.newnodes\<close>, which \<^verbatim>\<open>merge\<close>
  receives.  Its \<^verbatim>\<open>Result\<close> has no \<^verbatim>\<open>ResolvesTo\<close> field; the field of the record stays as
  \<^verbatim>\<open>MakeResult\<close> leaves it.
\<close>

definition fetch_work ::
  "lib \<Rightarrow> (string \<Rightarrow> (response \<times> hnode option) option) \<Rightarrow> Crawler \<times> node list list \<Rightarrow> node
     \<Rightarrow> (Crawler \<times> node list list) outcome" where
  "fetch_work L net st n =
     (let c = fst st; handed = snd st in
      if connections c \<ge> 20 then Blocked
      else case link.Address n of
        None \<Rightarrow> Panic NilDereference
      | Some a \<Rightarrow>
          (let result0 = MakeResult (link.Address n) (node.Depth n) in
           case net (Full a) of
             None \<Rightarrow> Ret (c, handed @ [[]])
           | Some (resp, None) \<Rightarrow> Ret (c, handed @ [[]])
           | Some (resp, Some tree) \<Rightarrow>
               (case Hydrate L result0 resp tree of
                  Inl p \<Rightarrow> Panic p
                | Inr result1 \<Rightarrow>
                    (let links =
                       (if response.StatusCode resp \<ge> 300 \<and> response.StatusCode resp < 400
                        then [MakeLink L a (Header_Get (response.Header resp) ''Location'') [] False]
                        else Links result1)
                     in if length (results c) < results_cap
                        then Ret (c\<lparr>results := results c @ [result1]\<rparr>,
                                  handed @ [linksToNodes (int64 (node.Depth n + 1)) links])
                        else Blocked))))"

fun fetch_all ::
  "lib \<Rightarrow> (string \<Rightarrow> (response \<times> hnode option) option) \<Rightarrow> Crawler \<times> node list list \<Rightarrow> node list
     \<Rightarrow> (Crawler \<times> node list list) outcome" where
  "fetch_all L net st [] = Ret st"
| "fetch_all L net st (n # ns) =
     (case fetch_work L net st n of
        Blocked \<Rightarrow> Blocked
      | Panic p \<Rightarrow> Panic p
      | Ret st1 \<Rightarrow> fetch_all L net st1 ns)"

text \<open>\<^verbatim>\<open>merge(n)\<close>: the queue is emptied, then each slice received is looked through.\<close>

fun merge_nodes :: "Crawler \<Rightarrow> node list \<Rightarrow> Crawler" where
  "merge_nodes c [] = c"
| "merge_nodes c (n # ns) =
     (case link.Address n of
        None \<Rightarrow> merge_nodes c ns
      | Some a \<Rightarrow>
          (case Seen c (Full a) of
             Some _ \<Rightarrow> merge_nodes c ns
           | None \<Rightarrow>
               if \<not> (Nofollow n \<and> RespectNofollow (Config c))
               then merge_nodes (c\<lparr>Seen := (Seen c)(Full a \<mapsto> True), queue := queue c @ [n]\<rparr>) ns
               else merge_nodes c ns))"

definition merge_work :: "Crawler \<Rightarrow> node list list \<Rightarrow> Crawler" where
  "merge_work c slices = fold (\<lambda>nodes c1. merge_nodes c1 nodes) slices (c\<lparr>queue := []\<rparr>)"

text \<open>
  One call of \<^verbatim>\<open>work\<close>, under the schedule in which the fetches it has spawned run one
  after the other once the loop is over, and \<^verbatim>\<open>merge\<close> receives their slices in that
  order.  Nobody receives from \<^verbatim>\<open>c.results\<close> meanwhile: a send on the full channel blocks.
\<close>

definition work ::
  "lib \<Rightarrow> (string \<Rightarrow> robots_get) \<Rightarrow> (string \<Rightarrow> (response \<times> hnode option) option) \<Rightarrow> int \<Rightarrow> Crawler
     \<Rightarrow> Crawler outcome" where
  "work L rnet net now c =
     (case work_loop L rnet now c (queue c) of
        Blocked \<Rightarrow> Blocked
      | Panic p \<Rightarrow> Panic p
      | Ret (spawned, c1) \<Rightarrow>
          (case fetch_all L net (c1, []) spawned of
             Blocked \<Rightarrow> Blocked
           | Panic p \<Rightarrow> Panic p
           | Ret (c2, slices) \<Rightarrow> Ret (merge_work c2 slices)))"

text \<open>\<^verbatim>\<open>Crawl\<close> of this revision, up to the goroutine that calls \<^verbatim>\<open>work\<close> while the queue is
  not empty: the seed is not put into \<^verbatim>\<open>Seen\<close>.\<close>

definition Crawl_work :: "lib \<Rightarrow> Config \<Rightarrow> panic + Crawler" where
  "Crawl_work L config =
     (let first = MakeNode L 0 (Start config);
          w = (case ParseDuration L (WaitTime config) of None \<Rightarrow> 0 | Some d \<Rightarrow> d)
      in case preparePatterns L (Include config) of
           None \<Rightarrow> Inl RegexpCompile
         | Some inc \<Rightarrow>
             (case preparePatterns L (Exclude config) of
                None \<Rightarrow> Inl RegexpCompile
              | Some exc \<Rightarrow>
                  Inr \<lparr>connections = 0, queue = [first], nextqueue = [], wg = 0,
                       Seen = Map.empty, results = [], robots = Map.empty,
                       LastRequestTime = None, wait = w,
                       include_pats = inc, exclude_pats = exc, Config = config\<rparr>))"

section \<open>The revision with a depth counter\<close>

text \<open>
  The newest revision keeps one depth counter in the crawler and queues of addresses.
  Its fields \<^verbatim>\<open>queue\<close>, \<^verbatim>\<open>nextqueue\<close>, \<^verbatim>\<open>results\<close>, \<^verbatim>\<open>include\<close>, \<^verbatim>\<open>exclude\<close> and \<^verbatim>\<open>Config\<close>
  carry the prefix \<open>d_\<close> here, the names without it being those of the record above.
  Of this revision only \<^verbatim>\<open>CrawlList\<close>, \<^verbatim>\<open>willCrawl\<close>, \<^verbatim>\<open>addRobots\<close>, \<^verbatim>\<open>merge\<close> and
  \<^verbatim>\<open>fetch\<close> are among the source files; its state functions are not.
\<close>

record DCrawler =
  depth :: int
  d_queue :: "address list"
  seen :: "string \<rightharpoonup> bool"
  d_results :: "result list"
  d_nextqueue :: "address list"
  d_include :: "regexp list"
  d_exclude :: "regexp list"
  d_Config :: Config

text \<open>The loop of \<^verbatim>\<open>merge(links)\<close>, and \<^verbatim>\<open>merge\<close> with its guard on the depth.\<close>

fun merge_loop :: "DCrawler \<Rightarrow> link list \<Rightarrow> DCrawler" where
  "merge_loop c [] = c"
| "merge_loop c (l # ls) =
     (case link.Address l of
        None \<Rightarrow> merge_loop c ls
      | Some a \<Rightarrow>
          if \<not> willCrawl (d_include c) (d_exclude c) (Full a) then merge_loop c ls
          else (case seen c (Full a) of
                  Some _ \<Rightarrow> merge_loop c ls
                | None \<Rightarrow>
                    if \<not> (Nofollow l \<and> RespectNofollow (d_Config c))
                    then merge_loop
                           (c\<lparr>seen := (seen c)(Full a \<mapsto> True),
                              d_nextqueue := d_nextqueue c @ [a]\<rparr>) ls
                    else merge_loop c ls))"

definition merge :: "DCrawler \<Rightarrow> link list \<Rightarrow> DCrawler" where
  "merge c links = (if \<not> (depth c < MaxDepth (d_Config c)) then c else merge_loop c links)"

text \<open>
  \<^verbatim>\<open>fetch(addr)\<close> of this revision: the result and the links it hands to \<^verbatim>\<open>merge\<close>
  (\<open>None\<close> when the request fails and the fetch returns silently), then the merge and the
  send on \<^verbatim>\<open>c.results\<close>.
\<close>

definition fetch_result :: "lib \<Rightarrow> int \<Rightarrow> address \<Rightarrow> (response \<times> page) option \<Rightarrow> (result \<times> link list) option" where
  "fetch_result L d addr got =
     (let result0 = MakeResult (Some addr) d in
      case got of
        None \<Rightarrow> None
      | Some (resp, pg) \<Rightarrow>
          (let result1 = Hydrate_page result0 resp pg;
               links = Links result1;
               result2 = result1\<lparr>ResolvesTo := result.Address result1\<rparr>
           in if response.StatusCode resp \<ge> 300 \<and> response.StatusCode resp < 400
              then Some (result2\<lparr>ResolvesTo :=
                           MakeAddressFromRelative L addr (Header_Get (response.Header resp) ''Location'')\<rparr>,
                         [MakeLink L addr (Header_Get (response.Header resp) ''Location'') [] False])
              else Some (result2, links)))"

definition d_fetch :: "lib \<Rightarrow> DCrawler \<Rightarrow> address \<Rightarrow> (response \<times> page) option \<Rightarrow> DCrawler" where
  "d_fetch L c addr got =
     (case fetch_result L (depth c) addr got of
        None \<Rightarrow> c
      | Some (r, links) \<Rightarrow>
          (let c1 = merge c links in c1\<lparr>d_results := d_results c1 @ [r]\<rparr>))"

text \<open>\<^verbatim>\<open>CrawlList\<close> of this revision, up to the call of \<^verbatim>\<open>c.start()\<close>, for a seed list
  without nil pointers, with its loop that puts the seeds into \<^verbatim>\<open>seen\<close>.\<close>

fun seed_seen :: "(string \<rightharpoonup> bool) \<Rightarrow> address list \<Rightarrow> (string \<rightharpoonup> bool)" where
  "seed_seen m [] = m"
| "seed_seen m (addr # q) = seed_seen (m(Full addr \<mapsto> True)) q"

definition d_CrawlList :: "lib \<Rightarrow> Config \<Rightarrow> address list \<Rightarrow> panic + DCrawler" where
  "d_CrawlList L config q =
     (if Connections config < 0 then Inl MakeChanSize
      else case preparePatterns L (Include config) of
        None \<Rightarrow> Inl RegexpCompile
      | Some inc \<Rightarrow>
          (case preparePatterns L (Exclude config) of
             None \<Rightarrow> Inl RegexpCompile
           | Some exc \<Rightarrow>
               Inr \<lparr>depth = 0, d_queue = q,
                    seen = seed_seen Map.empty q,
                    d_results = [], d_nextqueue = [], d_include = inc, d_exclude = exc,
                    d_Config = config\<rparr>))"

text \<open>The next-level queue of this revision holds no URL twice and only URLs in
  \<^verbatim>\<open>seen\<close>.\<close>

definition d_queued_ok :: "DCrawler \<Rightarrow> bool" where
  "d_queued_ok c =
     (distinct (map Full (d_nextqueue c)) \<and> (\<forall>a \<in> set (d_nextqueue c). seen c (Full a) \<noteq> None))"

section \<open>Runs of the state-machine crawler\<close>

text \<open>
  The URL string of a node and of a result; the nodes the program still has to deal with
  or has dispatched (the fetches spawned so far, the part of the current queue not yet
  passed, and the next-level queue); and the invariant that keeps their URLs distinct and
  in \<^verbatim>\<open>Seen\<close>, and every result sent tied to a fetch of its own.
\<close>

definition node_url :: "node \<Rightarrow> string option" where
  "node_url n = map_option Full (link.Address n)"

definition result_url :: "result \<Rightarrow> string option" where
  "result_url r = map_option Full (result.Address r)"

definition pending :: "system \<Rightarrow> node list" where
  "pending s = (if next_fn s = Some CrawlNext then tl (queue (crw s)) else queue (crw s))"

definition tracked :: "system \<Rightarrow> node list" where
  "tracked s = map fnode (fetches s) @ pending s @ nextqueue (crw s)"

definition sent :: "fetch_task \<Rightarrow> bool" where
  "sent t = (fpc t = FReturn \<or> fpc t = FDone)"

definition sent_urls :: "system \<Rightarrow> string option multiset" where
  "sent_urls s = image_mset (\<lambda>t. node_url (fnode t)) (filter_mset sent (mset (fetches s)))"

definition all_seen :: "system \<Rightarrow> bool" where
  "all_seen s = (\<forall>n \<in> set (tracked s). \<exists>a. link.Address n = Some a \<and> Seen (crw s) (Full a) \<noteq> None)"

definition sched_shape :: "system \<Rightarrow> bool" where
  "sched_shape s =
     ((next_fn s = Some CrawlAwait \<or> next_fn s = Some CrawlNextQueue \<longrightarrow> queue (crw s) = [])
      \<and> (next_fn s = Some CrawlNext \<longrightarrow> queue (crw s) \<noteq> [])
      \<and> next_fn s \<noteq> Some CrawlCheckRobots)"

definition results_of_fetches :: "system \<Rightarrow> bool" where
  "results_of_fetches s =
     (mset (map result_url (emitted s)) \<subseteq># sent_urls s
      \<and> (\<forall>t \<in> set (fetches s). \<forall>r. fpc t = FSend r \<longrightarrow> result_url r = node_url (fnode t)))"

definition dedup_inv :: "system \<Rightarrow> bool" where
  "dedup_inv s =
     (distinct (map node_url (tracked s)) \<and> all_seen s \<and> sched_shape s \<and> results_of_fetches s)"

text \<open>The robots cache is empty and the scheduler is not about to call
  \<^verbatim>\<open>crawlCheckRobots\<close>.\<close>

definition no_check :: "system \<Rightarrow> bool" where
  "no_check s = (robots (crw s) = Map.empty \<and> next_fn s \<noteq> Some CrawlCheckRobots)"

text \<open>A run from \<^verbatim>\<open>CrawlList\<close> under a schedule, and what the consumer gets to see of it:
  the URLs and the depths of the results in the order sent.\<close>

definition crawl_run :: "lib \<Rightarrow> Config \<Rightarrow> node list \<Rightarrow> event list \<Rightarrow> system option" where
  "crawl_run L config q es =
     (case CrawlList L config q of Inl p \<Rightarrow> None | Inr s0 \<Rightarrow> exec L es s0)"

definition run_urls :: "lib \<Rightarrow> Config \<Rightarrow> node list \<Rightarrow> event list \<Rightarrow> string option list option" where
  "run_urls L config q es = map_option (\<lambda>s. map result_url (emitted s)) (crawl_run L config q es)"

definition run_depths :: "lib \<Rightarrow> Config \<Rightarrow> node list \<Rightarrow> event list \<Rightarrow> int list option" where
  "run_depths L config q es = map_option (\<lambda>s. map result.Depth (emitted s)) (crawl_run L config q es)"

section \<open>A small site\<close>

text \<open>
  A host \<open>h\<close> whose page \<open>/\<close> links to \<open>/t\<close> and whose other pages link back to \<open>/\<close>,
  and a configuration with two connections,
  no depth cap, no filters and no wait: the concrete inputs the theorems are tried on.
  The URL library knows the one host: \<open>Parse\<close> splits the fragment off at the first
  \<open>#\<close> and rejects a string that begins with a colon, \<open>String\<close> writes the fragment
  after a \<open>#\<close> when there is one, and a reference without a scheme takes scheme and host
  of the base.
\<close>

definition site_lib :: lib where
  "site_lib =
     \<lparr>url_Parse =
        (\<lambda>s. if take 1 s = '':'' then None
             else if take 8 (takeWhile (\<lambda>x. x \<noteq> CHR ''#'') s) = ''http://h''
             then Some \<lparr>url_Scheme = ''http'', url_Host = ''h'',
                        url_Path = drop 8 (takeWhile (\<lambda>x. x \<noteq> CHR ''#'') s),
                        url_RawQuery = [],
                        url_Fragment = drop 1 (dropWhile (\<lambda>x. x \<noteq> CHR ''#'') s)\<rparr>
             else Some \<lparr>url_Scheme = [], url_Host = [],
                        url_Path = takeWhile (\<lambda>x. x \<noteq> CHR ''#'') s,
                        url_RawQuery = [],
                        url_Fragment = drop 1 (dropWhile (\<lambda>x. x \<noteq> CHR ''#'') s)\<rparr>),
      ResolveReference =
        (\<lambda>b r. if url_Scheme r = []
               then r\<lparr>url_Scheme := url_Scheme b, url_Host := url_Host b\<rparr> else r),
      url_String =
        (\<lambda>u. url_Scheme u @ ''://'' @ url_Host u @ url_Path u
               @ (if url_RawQuery u = [] then [] else CHR ''?'' # url_RawQuery u)
               @ (if url_Fragment u = [] then [] else CHR ''#'' # url_Fragment u)),
      ParseDuration = (\<lambda>s. Some 0),
      MustCompile = (\<lambda>s. None)\<rparr>"

definition site_url :: "string \<Rightarrow> url" where
  "site_url p =
     \<lparr>url_Scheme = ''http'', url_Host = ''h'', url_Path = p, url_RawQuery = [],
      url_Fragment = []\<rparr>"

definition site_addr :: "string \<Rightarrow> address" where
  "site_addr p =
     \<lparr>Full = ''http://h'' @ p, Host = ''h'', Scheme = ''http'', RobotsPath = p,
      URL = site_url p\<rparr>"

definition site_config :: Config where
  "site_config =
     \<lparr>Connections = 2, RobotsUserAgent = ''X'', Include = [], Exclude = [],
      Start = ''http://h/'', RespectNofollow = False, MaxDepth = - 1, WaitTime = ''0s'',
      UserAgent = ''crawl''\<rparr>"

definition site_seed :: node where
  "site_seed =
     \<lparr>link.Address = Some (site_addr ''/''), Text = [], Nofollow = False, node.Depth = 0\<rparr>"

definition site_ok :: "link list \<Rightarrow> response \<times> page" where
  "site_ok ls =
     (\<lparr>response.Status = ''200 OK'', response.StatusCode = 200, response.Proto = ''HTTP/1.1'',
       response.ProtoMajor = 1, response.ProtoMinor = 1, response.Header = []\<rparr>,
      \<lparr>pTitle = [], pH1 = [], pDescription = [], pRobots = [], pCanonical = [],
       pHreflang = [], pLinks = ls\<rparr>)"

definition site_net :: "string \<Rightarrow> (response \<times> page) option" where
  "site_net u =
     (if u = ''http://h/''
      then Some (site_ok [\<lparr>link.Address = Some (site_addr ''/t''), Text = ''t'', Nofollow = False\<rparr>])
      else Some (site_ok [\<lparr>link.Address = Some (site_addr ''/''), Text = ''home'', Nofollow = False\<rparr>]))"

definition no_robots :: "string \<Rightarrow> robots_get" where
  "no_robots u = GetError"

text \<open>
  A robots.txt for \<open>h\<close> that disallows \<open>/private\<close> for the agent \<open>X\<close>, served with
  status 200; the seed \<open>/private\<close>; and a run of the state-machine crawler on that seed
  up to the first result \<^verbatim>\<open>Next()\<close> returns.
\<close>

definition deny_private :: robotsdata where
  "deny_private = RobotsData (\<lambda>path agent. \<not> (agent = ''X'' \<and> take 8 path = ''/private''))"

definition deny_robots :: "string \<Rightarrow> robots_get" where
  "deny_robots u =
     (if u = ''http://h/robots.txt'' then GetResponse 200 (Some deny_private) else GetError)"

definition private_seed :: node where
  "private_seed =
     \<lparr>link.Address = Some (site_addr ''/private''), Text = [], Nofollow = False, node.Depth = 0\<rparr>"

definition private_config :: Config where
  "private_config = site_config\<lparr>Start := ''http://h/private''\<rparr>"

definition private_run :: "event list" where
  "private_run =
     [Sched 0 deny_robots, Sched 0 deny_robots, Sched 0 deny_robots,
      Get 0 site_net, Send 0, Next]"

text \<open>
  A server whose robots.txt request ends in a 500: \<^verbatim>\<open>robotstxt.FromResponse\<close> makes of a
  5xx the matcher that disallows everything.  And a network that serves no page.
\<close>

definition disallow_all :: robotsdata where
  "disallow_all = RobotsData (\<lambda>path agent. False)"

definition error_robots :: "string \<Rightarrow> robots_get" where
  "error_robots u = GetResponse 500 (Some disallow_all)"

definition no_pages :: "string \<Rightarrow> (response \<times> hnode option) option" where
  "no_pages u = None"

text \<open>The page \<open>/\<close> of \<open>h\<close> as a document: one link, \<^verbatim>\<open><a href="/x" rel="nofollow">x</a>\<close>.\<close>

definition nofollow_a :: hnode where
  "nofollow_a = Element ''a'' [(''href'', ''/x''), (''rel'', ''nofollow'')] [TextNode ''x'']"

definition nofollow_doc :: hnode where
  "nofollow_doc = Document [Element ''html'' [] [Element ''body'' [] [nofollow_a]]]"

definition site_base :: url where
  "site_base =
     \<lparr>url_Scheme = ''http'', url_Host = ''h'', url_Path = ''/'', url_RawQuery = [],
      url_Fragment = []\<rparr>"

text \<open>The same page with a fragment in the reference:
  \<^verbatim>\<open><a href="/x#top">x</a>\<close>.\<close>

definition fragment_a :: hnode where
  "fragment_a = Element ''a'' [(''href'', ''/x#top'')] [TextNode ''x'']"

definition fragment_doc :: hnode where
  "fragment_doc = Document [Element ''html'' [] [Element ''body'' [] [fragment_a]]]"

text \<open>
  Three schedules.  In \<open>full_run\<close> each fetch sends its result before its merge runs, and
  the crawl ends with the channel closed and drained.  In \<open>race_run\<close> the fetch of the seed
  has spawned the sender of its nodes and is then not scheduled again until the merge has
  finished, the scheduler has promoted the next queue and the fetch of \<open>/t\<close> has sent its
  result.  In \<open>dup_run\<close> the seed list holds the seed twice and both are fetched.
\<close>

definition full_run :: "event list" where
  "full_run =
     [Sched 0 no_robots, Sched 0 no_robots, Sched 0 no_robots,
      Get 0 site_net, Send 0, Return 0, Recv 0 0, Merge 0, Merge 0,
      Sched 0 no_robots, Sched 0 no_robots, Sched 0 no_robots,
      Sched 0 no_robots, Sched 0 no_robots, Sched 0 no_robots,
      Get 1 site_net, Send 1, Return 1, Recv 1 1, Merge 1, Merge 1,
      Sched 0 no_robots, Sched 0 no_robots, Sched 0 no_robots, Sched 0 no_robots,
      Sched 0 no_robots, Next, Next]"

definition race_run :: "event list" where
  "race_run =
     [Sched 0 no_robots, Sched 0 no_robots, Sched 0 no_robots,
      Get 0 site_net, Recv 0 0, Merge 0, Merge 0,
      Sched 0 no_robots, Sched 0 no_robots, Sched 0 no_robots,
      Sched 0 no_robots, Sched 0 no_robots, Sched 0 no_robots,
      Get 1 site_net, Send 1, Send 0, Next, Next]"

definition dup_run :: "event list" where
  "dup_run =
     [Sched 0 no_robots, Sched 0 no_robots, Sched 0 no_robots,
      Sched 0 no_robots, Sched 0 no_robots, Sched 0 no_robots,
      Get 0 site_net, Get 1 site_net, Send 0, Send 1, Next, Next]"

text \<open>A redirect: \<open>301\<close> with \<open>Location: /b\<close> and a body that links to \<open>/t\<close>; for the
  work-loop revision the same response with the document above as its body.\<close>

definition site_moved :: "response \<times> page" where
  "site_moved =
     (\<lparr>response.Status = ''301 Moved Permanently'', response.StatusCode = 301,
       response.Proto = ''HTTP/1.1'', response.ProtoMajor = 1, response.ProtoMinor = 1,
       response.Header = [(''Location'', [''/b''])]\<rparr>,
      \<lparr>pTitle = [], pH1 = [], pDescription = [], pRobots = [], pCanonical = [],
       pHreflang = [],
       pLinks = [\<lparr>link.Address = Some (site_addr ''/t''), Text = ''t'', Nofollow = False\<rparr>]\<rparr>)"

text \<open>A page whose one link has a reference that \<^verbatim>\<open>url.Parse\<close> rejects:
  \<^verbatim>\<open><a href=":">x</a>\<close>.\<close>

definition bad_a :: hnode where
  "bad_a = Element ''a'' [(''href'', '':'')] [TextNode ''x'']"

definition bad_doc :: hnode where
  "bad_doc = Document [Element ''html'' [] [Element ''body'' [] [bad_a]]]"

definition bad_docs :: "string \<Rightarrow> (response \<times> hnode option) option" where
  "bad_docs u = Some (fst (site_ok []), Some bad_doc)"

definition moved_net :: "string \<Rightarrow> (response \<times> page) option" where
  "moved_net u = Some site_moved"

definition moved_docs :: "string \<Rightarrow> (response \<times> hnode option) option" where
  "moved_docs u = Some (fst site_moved, Some nofollow_doc)"

text \<open>The node the redirect yields at depth 1, and the schedule that takes the crawl of the
  seed \<open>/\<close> up to the spawn of its fetch.\<close>

definition moved_node :: node where
  "moved_node =
     \<lparr>link.Address = Some (site_addr ''/b''), Text = [], Nofollow = False, node.Depth = 1\<rparr>"

definition dispatch_run :: "event list" where
  "dispatch_run = [Sched 0 no_robots, Sched 0 no_robots, Sched 0 no_robots]"

section \<open>Theorems\<close>

lemma willCrawl_include_eq:
  "willCrawl_include rs n u =
     (if list_ex (\<lambda>p. MatchString p u) rs then True else \<not> 0 < n)"
  by (induction rs) auto

lemma willCrawl_exclude_eq:
  "willCrawl_exclude rs inc u =
     (if list_ex (\<lambda>p. MatchString p u) rs then False
      else willCrawl_include inc (length inc) u)"
  by (induction rs) auto

text \<open>
  C5: for every URL string and every pair of compiled include/exclude lists the filter
  decides by the documented precedence: an exclude match rejects; otherwise an include
  match accepts; otherwise a non-empty include list rejects; otherwise accept.  The
  string handed to each pattern's \<^verbatim>\<open>MatchString\<close> is the full URL string.
\<close>

theorem willCrawl_precedence:
  "willCrawl inc exc u = filter_spec inc exc u"
  by (cases inc) (simp_all add: willCrawl_def filter_spec_def willCrawl_exclude_eq
      willCrawl_include_eq)

subsection \<open>Evaluating a run\<close>

lemmas sched_defs =
  sched_def finish_def crawlStartQueue_def crawlNextQueue_def crawlStart_def
  crawlCheckRobots_def crawlWait_def crawlNext_def crawlDo_def crawlAwait_def
  Since_def WillCrawl_def willCrawl_def results_cap_def

lemmas goroutine_defs =
  fetch_get_def fetch_def fetch_send_def fetch_return_def merge_recv_def merge_step_def
  merge_node_def consumer_next_def MakeResult_def Hydrate_page_def MakeLink_def Header_Get_def
  int64_def

lemmas site_defs =
  CrawlList_def site_lib_def site_addr_def site_config_def site_seed_def site_ok_def
  site_net_def no_robots_def

lemmas run_defs =
  crawl_run_def run_urls_def run_depths_def emitted_def result_url_def node_url_def

subsection \<open>The head of the queue is always there\<close>

lemma addRobots_queue [simp]: "queue (addRobots L net c u) = queue c"
  by (simp add: addRobots_def Let_def split: option.splits robots_get.splits prod.splits)

lemma merge_node_queue [simp]: "queue (merge_node c n) = queue c"
  by (simp add: merge_node_def split: option.splits)

lemma sched_queue_ok:
  assumes "queue_ok s" and "sched L now net s = Some s1"
  shows "queue_ok s1"
proof (cases "next_fn s")
  case None
  with assms show ?thesis
    by (auto simp: sched_def queue_ok_def needs_head_def Let_def split: if_splits)
next
  case (Some f)
  with assms show ?thesis
    by (cases f)
       (auto simp: sched_def queue_ok_def needs_head_def Let_def finish_def
          crawlStartQueue_def crawlNextQueue_def crawlStart_def crawlCheckRobots_def
          crawlWait_def crawlNext_def crawlDo_def crawlAwait_def TestAgent_ptr_def
          split: if_splits list.splits option.splits sum.splits)
qed

lemma step_queue_ok:
  assumes "queue_ok s" and "step L e s = Some s1"
  shows "queue_ok s1"
proof (cases e)
  case (Sched now net)
  with assms show ?thesis by (auto simp: step_def split: if_splits dest: sched_queue_ok)
next
  case (Get i net)
  with assms show ?thesis
    by (auto simp: step_def fetch_get_def queue_ok_def Let_def
        split: if_splits fetch_pc.splits option.splits prod.splits)
next
  case (Send i)
  with assms show ?thesis
    by (auto simp: step_def fetch_send_def queue_ok_def Let_def split: if_splits fetch_pc.splits)
next
  case (Return i)
  with assms show ?thesis
    by (auto simp: step_def fetch_return_def queue_ok_def Let_def split: if_splits fetch_pc.splits)
next
  case (Recv m j)
  with assms show ?thesis
    by (auto simp: step_def merge_recv_def queue_ok_def
        split: if_splits merge_task.splits option.splits)
next
  case (Merge m)
  with assms show ?thesis
    by (auto simp: step_def merge_step_def queue_ok_def
        split: if_splits merge_task.splits list.splits)
next
  case Next
  with assms show ?thesis
    by (auto simp: step_def consumer_next_def queue_ok_def split: if_splits list.splits)
qed

lemma exec_queue_ok: "queue_ok s \<Longrightarrow> exec L es s = Some s1 \<Longrightarrow> queue_ok s1"
proof (induction es arbitrary: s)
  case Nil
  then show ?case by simp
next
  case (Cons e es)
  then show ?case by (auto split: option.splits dest: step_queue_ok)
qed

lemma CrawlList_queue_ok: "CrawlList L config q = Inr s \<Longrightarrow> queue_ok s"
  by (auto simp: CrawlList_def queue_ok_def needs_head_def Let_def split: if_splits option.splits)

text \<open>
  C10: in every state the program reaches from \<^verbatim>\<open>CrawlList\<close>, under any interleaving of
  the goroutines and any answers of the network, whenever the scheduler's next state
  function is \<^verbatim>\<open>crawlStart\<close> or one of the states it leads to that read the head
  (\<^verbatim>\<open>crawlWait\<close>, \<^verbatim>\<open>crawlNext\<close>, \<^verbatim>\<open>crawlDo\<close>, \<^verbatim>\<open>crawlCheckRobots\<close>), the current-level queue
  is non-empty; and the program has not panicked on an index out of range.
\<close>

theorem queue_head_in_bounds:
  assumes "CrawlList L config q = Inr s0" and "exec L es s0 = Some s"
  shows "panicked s \<noteq> Some IndexOutOfRange \<and> (needs_head (next_fn s) \<longrightarrow> queue (crw s) \<noteq> [])"
  using exec_queue_ok [OF CrawlList_queue_ok [OF assms(1)] assms(2)]
  by (simp add: queue_ok_def)

theorem queue_head_in_bounds_witness:
  "\<exists>s0 s. CrawlList site_lib site_config [site_seed] = Inr s0
     \<and> exec site_lib [Sched 0 no_robots, Sched 0 no_robots] s0 = Some s
     \<and> next_fn s = Some CrawlDo \<and> queue (crw s) \<noteq> []
     \<and> panicked s \<noteq> Some IndexOutOfRange"
proof -
  let ?init = "projr (CrawlList site_lib site_config [site_seed])"
  let ?fin = "the (exec site_lib [Sched 0 no_robots, Sched 0 no_robots] ?init)"
  have a: "CrawlList site_lib site_config [site_seed] = Inr ?init"
    by (simp add: site_defs)
  have b: "exec site_lib [Sched 0 no_robots, Sched 0 no_robots] ?init = Some ?fin"
    by (simp add: site_defs step_def sched_defs)
  have c: "next_fn ?fin = Some CrawlDo"
    by (simp add: site_defs step_def sched_defs)
  from queue_head_in_bounds [OF a b] c
  have "queue (crw ?fin) \<noteq> [] \<and> panicked ?fin \<noteq> Some IndexOutOfRange"
    by (simp add: needs_head_def)
  with a b c show ?thesis by blast
qed

subsection \<open>Redirects\<close>

lemma Hydrate_page_Address: "result.Address (Hydrate_page r resp pg) = result.Address r"
  by (simp add: Hydrate_page_def)

lemma Hydrate_page_Links: "Links (Hydrate_page r resp pg) = pLinks pg"
  by (simp add: Hydrate_page_def)

lemma merge_loop_d_results [simp]: "d_results (merge_loop c ls) = d_results c"
  by (induction c ls rule: merge_loop.induct) (auto split: option.splits)

lemma merge_d_results [simp]: "d_results (merge c ls) = d_results c"
  by (simp add: merge_def)

lemma fetch_got:
  assumes "link.Address n = Some a"
  shows "\<exists>r links.
      fetch L n a (Some (resp, pg)) = (Some r, linksToNodes (int64 (node.Depth n + 1)) links)
    \<and> result.Address r = Some a \<and> result.Depth r = node.Depth n \<and> Links r = pLinks pg
    \<and> (if 300 \<le> response.StatusCode resp \<and> response.StatusCode resp < 400
        then ResolvesTo r =
               MakeAddressFromRelative L a (Header_Get (response.Header resp) ''Location'')
           \<and> links = [\<lparr>link.Address = ResolvesTo r, Text = [], Nofollow = False\<rparr>]
        else ResolvesTo r = Some a \<and> links = pLinks pg)"
  using assms
  by (auto simp: fetch_def Let_def Hydrate_page_Address Hydrate_page_Links MakeResult_def
      MakeLink_def Hydrate_page_def)

lemma fetch_result_got:
  "\<exists>r links.
      fetch_result L d a (Some (resp, pg)) = Some (r, links)
    \<and> result.Address r = Some a \<and> result.Depth r = d \<and> Links r = pLinks pg
    \<and> (if 300 \<le> response.StatusCode resp \<and> response.StatusCode resp < 400
        then ResolvesTo r =
               MakeAddressFromRelative L a (Header_Get (response.Header resp) ''Location'')
           \<and> links = [\<lparr>link.Address = ResolvesTo r, Text = [], Nofollow = False\<rparr>]
        else ResolvesTo r = Some a \<and> links = pLinks pg)"
  by (simp add: fetch_result_def Let_def Hydrate_page_Address Hydrate_page_Links MakeResult_def
      MakeLink_def Hydrate_page_def)

lemma Hydrate_Links:
  assumes "Hydrate L r resp doc = Inr r1" and "result.Address r = Some a"
  shows "getLinks L (URL a) doc = Inr (Links r1) \<and> result.Address r1 = Some a
     \<and> result.Depth r1 = result.Depth r
     \<and> result.StatusCode r1 = response.StatusCode resp
     \<and> result.Status r1 = response.Status resp"
  using assms
  by (auto simp: Hydrate_def scrapeResult_def Let_def split: sum.splits)

text \<open>
  C6: what a fetch emits and hands on once it has its response, in each revision.
  State machine: the step in which \<^verbatim>\<open>client.Get\<close> returns leaves the fetch holding the
  result \<open>r\<close> and spawns the sender of its nodes; the fetch's send then puts \<open>r\<close> on
  \<^verbatim>\<open>c.results\<close> (unless the channel is closed or full), and a merge goroutine waiting in its
  receive gets exactly these nodes.  Depth counter: \<^verbatim>\<open>fetch\<close> merges the links and appends
  \<open>r0\<close> to the results.  Work loop, where \<^verbatim>\<open>Hydrate\<close> returns: \<^verbatim>\<open>fetch\<close> appends its result
  to \<^verbatim>\<open>c.results\<close> and hands its nodes to the sender.  In each, when the status code is in
  \<open>300..399\<close> the links handed on are exactly one link, whose target is the Location header
  resolved against the request address, with empty text and no nofollow, and \<^verbatim>\<open>ResolvesTo\<close>
  is that target; otherwise \<^verbatim>\<open>ResolvesTo\<close> is the request address and the links handed on
  are the extracted links of the result.  Nodes are one level deeper than the entry, in
  64-bit arithmetic.  The result of the work-loop revision has no \<^verbatim>\<open>ResolvesTo\<close>.
\<close>

theorem fetch_redirect:
  assumes "panicked s = None" and "i < length (fetches s)"
    and "fetches s ! i = \<lparr>fnode = n, fpc = FGet\<rparr>"
    and "link.Address n = Some a"
    and "net (Full a) = Some (resp, pg)"
    and "netw (Full a) = Some (resp, Some doc)"
    and "Hydrate L (MakeResult (Some a) (node.Depth n)) resp doc = Inr rw"
    and "connections cw < 20" and "length (results cw) < results_cap"
  shows "(\<exists>r r0 links s1.
        step L (Get i net) s = Some s1
      \<and> fetches s1 = (fetches s)[i := \<lparr>fnode = n, fpc = FSend r\<rparr>]
      \<and> sends s1 = sends s @ [Some (linksToNodes (int64 (node.Depth n + 1)) links)]
      \<and> (closed s \<or> results_cap \<le> length (results (crw s))
           \<or> (\<exists>s2. step L (Send i) s1 = Some s2 \<and> results (crw s2) = results (crw s) @ [r]))
      \<and> (\<forall>m < length (merges s). merges s ! m = MRecv \<longrightarrow>
            (\<exists>s3. step L (Recv m (length (sends s))) s1 = Some s3
               \<and> merges s3 ! m = MLoop (linksToNodes (int64 (node.Depth n + 1)) links)))
      \<and> d_fetch L c a (Some (resp, pg))
          = (merge c links)\<lparr>d_results := d_results c @ [r0]\<rparr>
      \<and> fetch_work L netw (cw, handed) n
          = Ret (cw\<lparr>results := results cw @ [rw]\<rparr>,
                 handed @ [linksToNodes (int64 (node.Depth n + 1))
                             (if 300 \<le> response.StatusCode resp \<and> response.StatusCode resp < 400
                              then links else Links rw)])
      \<and> result.Address r = Some a \<and> result.Address r0 = Some a \<and> result.Address rw = Some a
      \<and> result.Depth r = node.Depth n \<and> result.Depth r0 = depth c
      \<and> Links r = pLinks pg \<and> Links r0 = pLinks pg \<and> getLinks L (URL a) doc = Inr (Links rw)
      \<and> ResolvesTo r0 = ResolvesTo r
      \<and> (if 300 \<le> response.StatusCode resp \<and> response.StatusCode resp < 400
          then ResolvesTo r =
                 MakeAddressFromRelative L a (Header_Get (response.Header resp) ''Location'')
             \<and> links = [\<lparr>link.Address = ResolvesTo r, Text = [], Nofollow = False\<rparr>]
          else ResolvesTo r = Some a \<and> links = pLinks pg))"
proof -
  let ?red = "300 \<le> response.StatusCode resp \<and> response.StatusCode resp < 400"
  let ?loc = "MakeAddressFromRelative L a (Header_Get (response.Header resp) ''Location'')"
  from fetch_got [OF assms(4), of L resp pg] obtain r links where
    f: "fetch L n a (Some (resp, pg)) = (Some r, linksToNodes (int64 (node.Depth n + 1)) links)"
    and r: "result.Address r = Some a" "result.Depth r = node.Depth n" "Links r = pLinks pg"
    and k: "if ?red then ResolvesTo r = ?loc
              \<and> links = [\<lparr>link.Address = ResolvesTo r, Text = [], Nofollow = False\<rparr>]
            else ResolvesTo r = Some a \<and> links = pLinks pg"
    by blast
  from fetch_result_got [of L "depth c" a resp pg] obtain r0 links0 where
    f0: "fetch_result L (depth c) a (Some (resp, pg)) = Some (r0, links0)"
    and r0: "result.Address r0 = Some a" "result.Depth r0 = depth c" "Links r0 = pLinks pg"
    and k0: "if ?red then ResolvesTo r0 = ?loc
              \<and> links0 = [\<lparr>link.Address = ResolvesTo r0, Text = [], Nofollow = False\<rparr>]
            else ResolvesTo r0 = Some a \<and> links0 = pLinks pg"
    by blast
  from k k0 have same: "links0 = links" "ResolvesTo r0 = ResolvesTo r"
    by (auto split: if_splits)
  let ?nodes = "linksToNodes (int64 (node.Depth n + 1)) links"
  let ?s1 = "s\<lparr>fetches := (fetches s)[i := \<lparr>fnode = n, fpc = FSend r\<rparr>],
               sends := sends s @ [Some ?nodes]\<rparr>"
  have g: "step L (Get i net) s = Some ?s1"
    using assms(1-5) f by (simp add: step_def fetch_get_def)
  have snd: "closed s \<or> results_cap \<le> length (results (crw s))
           \<or> (\<exists>s2. step L (Send i) ?s1 = Some s2 \<and> results (crw s2) = results (crw s) @ [r])"
    using assms(1,2) by (auto simp: step_def fetch_send_def Let_def)
  have rcv: "\<forall>m < length (merges s). merges s ! m = MRecv \<longrightarrow>
            (\<exists>s3. step L (Recv m (length (sends s))) ?s1 = Some s3
               \<and> merges s3 ! m = MLoop ?nodes)"
    using assms(1) by (simp add: step_def merge_recv_def)
  have d: "d_fetch L c a (Some (resp, pg)) = (merge c links)\<lparr>d_results := d_results c @ [r0]\<rparr>"
    using f0 same by (simp add: d_fetch_def Let_def)
  from Hydrate_Links [OF assms(7)]
  have hw: "getLinks L (URL a) doc = Inr (Links rw)" "result.Address rw = Some a"
    by (simp_all add: MakeResult_def)
  have lk: "?red \<Longrightarrow> links = [MakeLink L a (Header_Get (response.Header resp) ''Location'') [] False]"
    using k by (simp add: MakeLink_def)
  have w: "fetch_work L netw (cw, handed) n
          = Ret (cw\<lparr>results := results cw @ [rw]\<rparr>,
                 handed @ [linksToNodes (int64 (node.Depth n + 1))
                             (if ?red then links else Links rw)])"
    using assms(4,6,7,8,9) lk by (simp add: fetch_work_def Let_def)
  from g snd rcv d w r r0 hw same k show ?thesis
    by (intro exI [of _ r] exI [of _ r0] exI [of _ links] exI [of _ ?s1] conjI) simp_all
qed

theorem fetch_redirect_witness:
  "\<exists>s s1 s2 s3 r cw rw c.
       crawl_run site_lib site_config [site_seed] dispatch_run = Some s
     \<and> panicked s = None \<and> fetches s = [\<lparr>fnode = site_seed, fpc = FGet\<rparr>]
     \<and> merges s = [MRecv] \<and> sends s = [] \<and> \<not> closed s \<and> results (crw s) = []
     \<and> link.Address site_seed = Some (site_addr ''/'')
     \<and> moved_net (Full (site_addr ''/'')) = Some site_moved
     \<and> moved_docs (Full (site_addr ''/'')) = Some (fst site_moved, Some nofollow_doc)
     \<and> response.StatusCode (fst site_moved) = 301
     \<and> Header_Get (response.Header (fst site_moved)) ''Location'' = ''/b''
     \<and> Crawl_work site_lib site_config = Inr cw \<and> connections cw = 0 \<and> results cw = []
     \<and> Hydrate site_lib (MakeResult (Some (site_addr ''/'')) (node.Depth site_seed))
          (fst site_moved) nofollow_doc = Inr rw
     \<and> d_CrawlList site_lib site_config [site_addr ''/''] = Inr c \<and> d_results c = []
     \<and> step site_lib (Get 0 moved_net) s = Some s1
     \<and> fetches s1 = [\<lparr>fnode = site_seed, fpc = FSend r\<rparr>]
     \<and> sends s1 = [Some [moved_node]]
     \<and> step site_lib (Send 0) s1 = Some s2 \<and> results (crw s2) = [r]
     \<and> step site_lib (Recv 0 0) s1 = Some s3 \<and> merges s3 = [MLoop [moved_node]]
     \<and> ResolvesTo r = Some (site_addr ''/b'')
     \<and> map ResolvesTo (d_results (d_fetch site_lib c (site_addr ''/'') (Some site_moved)))
          = [Some (site_addr ''/b'')]
     \<and> fetch_work site_lib moved_docs (cw, []) site_seed
          = Ret (cw\<lparr>results := [rw]\<rparr>, [[moved_node]])"
proof -
  let ?s = "the (crawl_run site_lib site_config [site_seed] dispatch_run)"
  let ?cw = "projr (Crawl_work site_lib site_config)"
  let ?c = "projr (d_CrawlList site_lib site_config [site_addr ''/''])"
  let ?rw = "projr (Hydrate site_lib (MakeResult (Some (site_addr ''/'')) (node.Depth site_seed))
                (fst site_moved) nofollow_doc)"
  let ?a = "site_addr ''/''"
  have rn: "crawl_run site_lib site_config [site_seed] dispatch_run = Some ?s"
    by (simp add: run_defs dispatch_run_def site_defs step_def sched_defs)
  have st: "panicked ?s = None" "fetches ?s = [\<lparr>fnode = site_seed, fpc = FGet\<rparr>]"
    "merges ?s = [MRecv]" "sends ?s = []" "\<not> closed ?s" "results (crw ?s) = []"
    by (simp_all add: run_defs dispatch_run_def site_defs step_def sched_defs)
  have h2: "0 < length (fetches ?s)" and h3: "fetches ?s ! 0 = \<lparr>fnode = site_seed, fpc = FGet\<rparr>"
    by (simp_all add: st(2))
  have h4: "link.Address site_seed = Some ?a"
    by (simp add: site_seed_def)
  have h5: "moved_net (Full ?a) = Some (fst site_moved, snd site_moved)"
    by (simp add: moved_net_def)
  have h6: "moved_docs (Full ?a) = Some (fst site_moved, Some nofollow_doc)"
    by (simp add: moved_docs_def)
  have h7: "Hydrate site_lib (MakeResult (Some ?a) (node.Depth site_seed))
          (fst site_moved) nofollow_doc = Inr ?rw"
    by (simp add: Hydrate_def scrapeResult_def MakeResult_def getLinks_def nofollow_doc_def
        nofollow_a_def site_addr_def site_url_def site_lib_def Let_def)
  have cw: "Crawl_work site_lib site_config = Inr ?cw" "connections ?cw = 0" "results ?cw = []"
    by (simp_all add: Crawl_work_def site_lib_def site_config_def Let_def)
  have h8: "connections ?cw < 20" and h9: "length (results ?cw) < results_cap"
    by (simp_all add: cw(2,3) results_cap_def)
  have c: "d_CrawlList site_lib site_config [site_addr ''/''] = Inr ?c" "d_results ?c = []"
    by (simp_all add: d_CrawlList_def site_lib_def site_config_def)
  have sc: "response.StatusCode (fst site_moved) = 301"
    and loc: "Header_Get (response.Header (fst site_moved)) ''Location'' = ''/b''"
    by (simp_all add: site_moved_def Header_Get_def)
  have tgt: "MakeAddressFromRelative site_lib ?a ''/b'' = Some (site_addr ''/b'')"
    by (simp add: MakeAddressFromRelative_def address_of_def site_lib_def site_addr_def
        site_url_def)
  have dep: "int64 (node.Depth site_seed + 1) = 1"
    by (simp add: int64_def site_seed_def)
  note t = fetch_redirect [where s = ?s and i = 0 and n = site_seed and a = ?a
      and net = moved_net and resp = "fst site_moved" and pg = "snd site_moved"
      and netw = moved_docs and doc = nofollow_doc and L = site_lib and rw = ?rw
      and cw = ?cw and c = ?c and handed = "[]", OF st(1) h2 h3 h4 h5 h6 h7 h8 h9]
  then obtain r r0 links s1 where
    g: "step site_lib (Get 0 moved_net) ?s = Some s1"
    and f1: "fetches s1 = (fetches ?s)[0 := \<lparr>fnode = site_seed, fpc = FSend r\<rparr>]"
    and sn: "sends s1 = sends ?s @ [Some (linksToNodes (int64 (node.Depth site_seed + 1)) links)]"
    and sd: "closed ?s \<or> results_cap \<le> length (results (crw ?s))
           \<or> (\<exists>s2. step site_lib (Send 0) s1 = Some s2
                  \<and> results (crw s2) = results (crw ?s) @ [r])"
    and rc: "\<forall>m < length (merges ?s). merges ?s ! m = MRecv \<longrightarrow>
            (\<exists>s3. step site_lib (Recv m (length (sends ?s))) s1 = Some s3
               \<and> merges s3 ! m = MLoop (linksToNodes (int64 (node.Depth site_seed + 1)) links))"
    and df: "d_fetch site_lib ?c ?a (Some (fst site_moved, snd site_moved))
          = (merge ?c links)\<lparr>d_results := d_results ?c @ [r0]\<rparr>"
    and fw: "fetch_work site_lib moved_docs (?cw, []) site_seed
          = Ret (?cw\<lparr>results := results ?cw @ [?rw]\<rparr>,
                 [] @ [linksToNodes (int64 (node.Depth site_seed + 1))
                             (if 300 \<le> response.StatusCode (fst site_moved)
                                   \<and> response.StatusCode (fst site_moved) < 400
                              then links else Links ?rw)])"
    and rr: "ResolvesTo r0 = ResolvesTo r"
    and k: "if 300 \<le> response.StatusCode (fst site_moved)
                \<and> response.StatusCode (fst site_moved) < 400
          then ResolvesTo r =
                 MakeAddressFromRelative site_lib ?a
                   (Header_Get (response.Header (fst site_moved)) ''Location'')
             \<and> links = [\<lparr>link.Address = ResolvesTo r, Text = [], Nofollow = False\<rparr>]
          else ResolvesTo r = Some ?a \<and> links = pLinks (snd site_moved)"
    by (elim exE conjE) (rule that; assumption)
  from k have res: "ResolvesTo r = Some (site_addr ''/b'')"
    and links: "links = [\<lparr>link.Address = Some (site_addr ''/b''), Text = [], Nofollow = False\<rparr>]"
    by (simp_all add: sc loc tgt)
  have nodes: "linksToNodes (int64 (node.Depth site_seed + 1)) links = [moved_node]"
    by (simp add: dep links moved_node_def)
  have f1': "fetches s1 = [\<lparr>fnode = site_seed, fpc = FSend r\<rparr>]"
    using f1 by (simp add: st(2))
  have sn': "sends s1 = [Some [moved_node]]"
    using sn by (simp add: st(4) nodes)
  from sd obtain s2 where s2: "step site_lib (Send 0) s1 = Some s2" "results (crw s2) = [r]"
    by (auto simp: st(5,6) results_cap_def)
  from rc have "\<exists>s3. step site_lib (Recv 0 0) s1 = Some s3 \<and> merges s3 ! 0 = MLoop [moved_node]"
    by (simp add: st(3,4) nodes)
  then obtain s3 where s3: "step site_lib (Recv 0 0) s1 = Some s3" "merges s3 ! 0 = MLoop [moved_node]"
    by blast
  have "length (merges s3) = 1"
    using s3(1) g by (auto simp: step_def merge_recv_def fetch_get_def st(1,3) Let_def
        split: if_splits merge_task.splits option.splits fetch_pc.splits prod.splits)
  with s3(2) have m3: "merges s3 = [MLoop [moved_node]]"
    by (cases "merges s3") auto
  have df': "map ResolvesTo (d_results (d_fetch site_lib ?c ?a (Some site_moved)))
          = [Some (site_addr ''/b'')]"
    using df by (simp add: c(2) rr res)
  have fw': "fetch_work site_lib moved_docs (?cw, []) site_seed
          = Ret (?cw\<lparr>results := [?rw]\<rparr>, [[moved_node]])"
    using fw by (simp add: cw(3) sc nodes)
  have h5': "moved_net (Full ?a) = Some site_moved"
    by (simp add: moved_net_def)
  note g0 = conjI [OF rn conjI [OF st(1) conjI [OF st(2) conjI [OF st(3) conjI [OF st(4)
      conjI [OF st(5) conjI [OF st(6) conjI [OF h4 conjI [OF h5' conjI [OF h6 conjI [OF sc
      conjI [OF loc conjI [OF cw(1) conjI [OF cw(2) conjI [OF cw(3) conjI [OF h7 conjI [OF c(1)
      conjI [OF c(2) conjI [OF g conjI [OF f1' conjI [OF sn' conjI [OF s2(1) conjI [OF s2(2)
      conjI [OF s3(1) conjI [OF m3 conjI [OF res conjI [OF df' fw']]]]]]]]]]]]]]]]]]]]]]]]]]]
  show ?thesis
    by (rule exI [of _ ?s], rule exI [of _ s1], rule exI [of _ s2], rule exI [of _ s3],
        rule exI [of _ r], rule exI [of _ ?cw], rule exI [of _ ?rw], rule exI [of _ ?c])
       (rule g0)
qed

subsection \<open>The depth cap\<close>

lemma merge_at_cap: "MaxDepth (d_Config c) \<le> depth c \<Longrightarrow> merge c links = c"
  by (simp add: merge_def)

lemma crawlStart_unbounded:
  assumes "MaxDepth (Config c) < 0" and "queue c = n # rest"
    and "crawlStart now c = Ret (Some CrawlNext)"
  shows "\<exists>a. link.Address n = Some a \<and> \<not> WillCrawl c (Full a)"
  using assms by (auto simp: crawlStart_def split: if_splits option.splits)

lemma crawlStart_seed_only:
  assumes "MaxDepth (Config c) = 0" and "queue c = n # rest" and "node.Depth n > 0"
  shows "crawlStart now c = Ret (Some CrawlWait) \<or> crawlStart now c = Ret (Some CrawlNext)"
  using assms by (simp add: crawlStart_def)

text \<open>
  C2, where the code departs from it: in the revision with a depth counter, \<^verbatim>\<open>merge\<close>
  returns before its loop whenever \<^verbatim>\<open>!(c.depth < c.MaxDepth)\<close>.  With \<open>MaxDepth = -1\<close>, at
  depth 0, a link that passes the filter and has not been seen is dropped (the loop alone
  would have put it on the next-level queue), so the crawl ends with the seeds.
\<close>

theorem merge_negative_MaxDepth:
  "\<exists>c. d_CrawlList site_lib site_config [site_addr ''/''] = Inr c
      \<and> MaxDepth (d_Config c) = - 1 \<and> depth c = 0
      \<and> willCrawl (d_include c) (d_exclude c) (Full (site_addr ''/t''))
      \<and> seen c (Full (site_addr ''/t'')) = None
      \<and> d_nextqueue
           (merge c [\<lparr>link.Address = Some (site_addr ''/t''), Text = ''t'', Nofollow = False\<rparr>]) = []
      \<and> d_nextqueue
           (merge_loop c [\<lparr>link.Address = Some (site_addr ''/t''), Text = ''t'', Nofollow = False\<rparr>])
          = [site_addr ''/t'']"
  by (simp add: d_CrawlList_def site_lib_def site_config_def site_addr_def merge_def willCrawl_def)

subsection \<open>Robots\<close>

lemma merge_node_robots [simp]: "robots (merge_node c n) = robots c"
  by (simp add: merge_node_def split: option.splits)

lemma sched_no_check:
  assumes "no_check s" and "sched L now net s = Some s1"
  shows "no_check s1"
proof (cases "next_fn s")
  case None
  with assms show ?thesis
    by (auto simp: sched_def no_check_def Let_def split: if_splits)
next
  case (Some f)
  with assms show ?thesis
    by (cases f)
       (auto simp: sched_def no_check_def Let_def finish_def
          crawlStartQueue_def crawlNextQueue_def crawlStart_def
          crawlWait_def crawlNext_def crawlDo_def crawlAwait_def
          split: if_splits list.splits option.splits)
qed

lemma step_no_check:
  assumes "no_check s" and "step L e s = Some s1"
  shows "no_check s1"
proof (cases e)
  case (Sched now net)
  with assms show ?thesis by (auto simp: step_def split: if_splits dest: sched_no_check)
next
  case (Get i net)
  with assms show ?thesis
    by (auto simp: step_def fetch_get_def no_check_def Let_def
        split: if_splits fetch_pc.splits option.splits prod.splits)
next
  case (Send i)
  with assms show ?thesis
    by (auto simp: step_def fetch_send_def no_check_def Let_def split: if_splits fetch_pc.splits)
next
  case (Return i)
  with assms show ?thesis
    by (auto simp: step_def fetch_return_def no_check_def Let_def split: if_splits fetch_pc.splits)
next
  case (Recv m j)
  with assms show ?thesis
    by (auto simp: step_def merge_recv_def no_check_def
        split: if_splits merge_task.splits option.splits)
next
  case (Merge m)
  with assms show ?thesis
    by (auto simp: step_def merge_step_def no_check_def
        split: if_splits merge_task.splits list.splits)
next
  case Next
  with assms show ?thesis
    by (auto simp: step_def consumer_next_def no_check_def split: if_splits list.splits)
qed

lemma exec_no_check: "no_check s \<Longrightarrow> exec L es s = Some s1 \<Longrightarrow> no_check s1"
proof (induction es arbitrary: s)
  case Nil
  then show ?case by simp
next
  case (Cons e es)
  then show ?case by (auto split: option.splits dest: step_no_check)
qed

lemma run_never_checks_robots:
  assumes "CrawlList L config q = Inr s0" and "exec L es s0 = Some s"
  shows "robots (crw s) = Map.empty \<and> next_fn s \<noteq> Some CrawlCheckRobots"
proof -
  from assms(1) have "no_check s0"
    by (auto simp: CrawlList_def no_check_def Let_def split: if_splits option.splits)
  from exec_no_check [OF this assms(2)] show ?thesis
    by (simp add: no_check_def)
qed

lemma work_node_denied:
  assumes "link.Address n = Some a"
    and "\<not> (node.Depth n > MaxDepth (Config c) \<and> MaxDepth (Config c) \<ge> 0)"
    and "WillCrawl c (Full a)"
    and "robots c (Host a) = Some (Some r)"
    and "\<not> TestAgent r (RobotsPath a) (RobotsUserAgent (Config c))"
    and "length (results c) < results_cap"
  shows "work_node L net now c n = Ret (Continue, c\<lparr>results := results c @ [blocked_result n]\<rparr>)"
  using assms by (auto simp: work_node_def robots_at_def TestAgent_ptr_def)

lemma work_node_nil_matcher:
  assumes "link.Address n = Some a"
    and "\<not> (node.Depth n > MaxDepth (Config c) \<and> MaxDepth (Config c) \<ge> 0)"
    and "WillCrawl c (Full a)"
    and "robots c (Host a) = Some None"
  shows "work_node L net now c n = Panic NilDereference"
  using assms by (simp add: work_node_def robots_at_def TestAgent_ptr_def)

lemma addRobots_work_stores:
  assumes "url_Parse L u = Some v"
    and "net (url_Scheme v @ ''://'' @ url_Host v @ ''/robots.txt'') = GetResponse code p"
  shows "robots (addRobots_work L net c u) (url_Host v) = Some p"
  using assms by (simp add: addRobots_work_def)

lemma addRobots_failure:
  assumes "url_Parse L u = Some v"
    and "net (url_Scheme v @ ''://'' @ url_Host v @ ''/robots.txt'') = GetError
         \<or> (\<exists>code p. net (url_Scheme v @ ''://'' @ url_Host v @ ''/robots.txt'') = GetResponse code p
               \<and> (code \<noteq> 200 \<or> p = None))"
  shows "robots (addRobots L net c u) (url_Host v) = Some None"
  using assms by (auto simp: addRobots_def Let_def split: if_splits)

lemma crawlStart_never_checks_robots: "crawlStart now c \<noteq> Ret (Some CrawlCheckRobots)"
  by (simp add: crawlStart_def split: list.splits option.splits)

lemmas work_defs =
  Crawl_work_def work_def work_node_def addRobots_work_def fetch_work_def merge_work_def
  robots_at_def TestAgent_ptr_def blocked_result_def MakeNode_def MakeAbsoluteLink_def
  MakeAddressFromString_def address_of_def WillCrawl_def willCrawl_def results_cap_def

lemma crawlCheckRobots_always_crawlDo:
  "crawlCheckRobots L net c = Ret (f, c1) \<Longrightarrow> f = Some CrawlDo"
  by (auto simp: crawlCheckRobots_def Let_def split: list.splits option.splits sum.splits if_splits)

text \<open>
  C3, where the code departs from it: the state-machine revision never looks at
  robots.txt.  \<^verbatim>\<open>crawlStart\<close> goes on to \<^verbatim>\<open>crawlDo\<close> and never to \<^verbatim>\<open>crawlCheckRobots\<close>, the
  only caller of \<^verbatim>\<open>addRobots\<close>, so the cache stays empty in every run.  On the host whose
  robots.txt disallows \<open>/private\<close> for the agent \<open>X\<close>, the crawl of the seed \<open>/private\<close>
  spawns the fetch of that URL and the one result it emits is the fetched page, with
  status \<open>200 OK\<close>.  The work loop of the oldest revision, on the same host and seed,
  fetches robots.txt, caches the matcher, sends the one result with status
  \<open>Blocked by robots.txt\<close> and spawns nothing.
\<close>

theorem robots_denied_fetched:
  "deny_robots ''http://h/robots.txt'' = GetResponse 200 (Some deny_private)
   \<and> \<not> TestAgent deny_private (RobotsPath (site_addr ''/private'')) (RobotsUserAgent site_config)
   \<and> (\<exists>s. crawl_run site_lib site_config [private_seed] private_run = Some s
        \<and> robots (crw s) = Map.empty
        \<and> map (\<lambda>t. node_url (fnode t)) (fetches s) = [Some ''http://h/private'']
        \<and> map result_url (emitted s) = [Some ''http://h/private'']
        \<and> map result.Status (emitted s) = [''200 OK''])
   \<and> (\<exists>c c1. Crawl_work site_lib private_config = Inr c \<and> queue c = [private_seed]
        \<and> work site_lib deny_robots no_pages 0 c = Ret c1
        \<and> results c1 = [blocked_result private_seed] \<and> queue c1 = []
        \<and> robots c1 ''h'' = Some (Some deny_private))"
  by (simp add: deny_robots_def deny_private_def private_seed_def private_config_def
      private_run_def no_pages_def
      run_defs site_defs step_def sched_defs goroutine_defs work_defs site_url_def Let_def)

text \<open>
  C8, where the code departs from it: in the work-loop revision a failed robots.txt
  request leaves a nil matcher cached, and the loop then calls \<^verbatim>\<open>TestAgent\<close> on it: the
  crawl of the seed panics with a nil dereference instead of treating the host as
  allowed.  And its \<^verbatim>\<open>addRobots\<close> caches what \<^verbatim>\<open>robotstxt.FromResponse\<close> returns whatever
  the status: after a 500 the cached matcher disallows everything and the seed is
  reported as blocked.  \<^verbatim>\<open>addRobots\<close> of the later revisions caches nil for the same
  response.
\<close>

theorem robots_failure_panics:
  "no_robots ''http://h/robots.txt'' = GetError
   \<and> error_robots ''http://h/robots.txt'' = GetResponse 500 (Some disallow_all)
   \<and> (\<exists>c. Crawl_work site_lib site_config = Inr c \<and> queue c = [site_seed]
        \<and> robots (addRobots_work site_lib no_robots c ''http://h/'') ''h'' = Some None
        \<and> work site_lib no_robots no_pages 0 c = Panic NilDereference
        \<and> robots (addRobots_work site_lib error_robots c ''http://h/'') ''h''
            = Some (Some disallow_all)
        \<and> (\<exists>c1. work site_lib error_robots no_pages 0 c = Ret c1
              \<and> results c1 = [blocked_result site_seed] \<and> queue c1 = [])
        \<and> robots (addRobots site_lib error_robots c ''http://h/'') ''h'' = Some None)"
  by (simp add: no_robots_def error_robots_def disallow_all_def site_seed_def no_pages_def
      addRobots_def site_lib_def site_config_def site_addr_def site_url_def work_defs Let_def)

subsection \<open>Extracted links\<close>

lemma getLinks_loop_links:
  assumes "getLinks_loop L base n els = Inr links"
  shows "list_all2 (\<lambda>a l. \<exists>t. link_url L base a = Some t
            \<and> l = MakeAbsoluteLink L (url_String L t) (GetText a)
                    (GetAttribute ''rel'' n = ''nofollow'')
            \<and> url_Fragment t = []) els links"
  using assms
proof (induction els arbitrary: links)
  case Nil
  then show ?case by simp
next
  case (Cons a els)
  then show ?case
    by (auto simp: link_url_def Let_def split: option.splits sum.splits)
qed

lemma getLinks_loop_rejected_href:
  assumes "a \<in> set els" and "url_Parse L (GetAttribute ''href'' a) = None"
  shows "getLinks_loop L base n els = Inl NilDereference"
  using assms
proof (induction els)
  case Nil
  then show ?case by simp
next
  case (Cons e els)
  then show ?case
    by (cases "url_Parse L (GetAttribute ''href'' e)") (auto simp: Let_def)
qed

lemma getLinks_rejected_href:
  assumes "a \<in> set (GetNodesByTagName ''a'' n)" and "url_Parse L (GetAttribute ''href'' a) = None"
  shows "getLinks L base n = Inl NilDereference"
  unfolding getLinks_def using assms by (rule getLinks_loop_rejected_href)

lemma fetch_work_rejected_href:
  "\<exists>c. Crawl_work site_lib site_config = Inr c
     \<and> fetch_work site_lib bad_docs (c, []) site_seed = Panic NilDereference"
  by (simp add: Crawl_work_def fetch_work_def Hydrate_def scrapeResult_def getLinks_def
      bad_docs_def bad_doc_def bad_a_def site_ok_def MakeResult_def site_seed_def site_addr_def
      site_url_def site_lib_def site_config_def Let_def)

lemma getLinks_nofollow_is_of_n:
  assumes "getLinks L base n = Inr links" and "l \<in> set links"
  shows "Nofollow l = (GetAttribute ''rel'' n = ''nofollow'')"
proof -
  from assms(1) have "list_all2 (\<lambda>a l. \<exists>t. link_url L base a = Some t
            \<and> l = MakeAbsoluteLink L (url_String L t) (GetText a)
                    (GetAttribute ''rel'' n = ''nofollow'')
            \<and> url_Fragment t = []) (GetNodesByTagName ''a'' n) links"
    unfolding getLinks_def by (rule getLinks_loop_links)
  with assms(2) show ?thesis
    by (auto simp: list_all2_conv_all_nth in_set_conv_nth MakeAbsoluteLink_def)
qed

lemma merge_node_nofollow:
  "Nofollow n \<Longrightarrow> RespectNofollow (Config c) \<Longrightarrow> merge_node c n = c"
  by (simp add: merge_node_def split: option.splits)

text \<open>
  C7, where the code departs from it: \<^verbatim>\<open>getLinks\<close> computes the nofollow flag from the
  \<^verbatim>\<open>rel\<close> attribute of the node it was given (the document), not of the \<^verbatim>\<open><a>\<close> element.
  For the document whose only link is \<^verbatim>\<open><a href="/x" rel="nofollow">x</a>\<close> it produces
  the one link, with the anchor text \<open>x\<close> and the target \<open>http://h/x\<close>, and with nofollow
  false although the element's own \<^verbatim>\<open>rel\<close> is \<open>nofollow\<close>.
\<close>

theorem getLinks_nofollow_from_root:
  "GetNodesByTagName ''a'' nofollow_doc = [nofollow_a]
   \<and> GetAttribute ''rel'' nofollow_a = ''nofollow''
   \<and> (\<exists>l. getLinks site_lib site_base nofollow_doc = Inr [l]
          \<and> Text l = ''x'' \<and> \<not> Nofollow l
          \<and> link.Address l = Some (site_addr ''/x''))"
  by (simp add: nofollow_doc_def nofollow_a_def getLinks_def site_lib_def site_base_def
      MakeAbsoluteLink_def MakeAddressFromString_def address_of_def site_addr_def site_url_def
      Let_def)

lemma site_lib_parse:
  assumes "\<forall>x\<in>set q. x \<noteq> CHR ''#''"
  shows "url_Parse site_lib (''http://h'' @ q) = Some (site_url q)"
proof -
  from assms have tw: "takeWhile (\<lambda>x. x \<noteq> CHR ''#'') q = q"
    and dw: "dropWhile (\<lambda>x. x \<noteq> CHR ''#'') q = []"
    by simp_all
  show ?thesis
    by (simp add: site_lib_def site_url_def tw dw)
qed

lemma site_lib_string: "url_String site_lib (site_url q) = ''http://h'' @ q"
  by (simp add: site_lib_def site_url_def)

lemma site_lib_resolved:
  assumes "url_Parse site_lib s = Some h"
  shows "\<exists>q. (\<forall>x\<in>set q. x \<noteq> CHR ''#'')
     \<and> (ResolveReference site_lib site_base h)\<lparr>url_Fragment := []\<rparr> = site_url q"
proof -
  let ?p = "takeWhile (\<lambda>x. x \<noteq> CHR ''#'') s"
  have nh: "\<forall>x\<in>set ?p. x \<noteq> CHR ''#''"
    by (auto dest: set_takeWhileD)
  then have nh2: "\<forall>x\<in>set (drop 8 ?p). x \<noteq> CHR ''#''"
    by (auto dest: in_set_dropD)
  show ?thesis
  proof (cases "take 8 ?p = ''http://h''")
    case True
    with assms have "(ResolveReference site_lib site_base h)\<lparr>url_Fragment := []\<rparr>
        = site_url (drop 8 ?p)"
      by (auto simp: site_lib_def site_url_def split: if_splits)
    with nh2 show ?thesis by blast
  next
    case False
    with assms have "(ResolveReference site_lib site_base h)\<lparr>url_Fragment := []\<rparr>
        = site_url ?p"
      by (auto simp: site_lib_def site_url_def site_base_def split: if_splits)
    with nh show ?thesis by blast
  qed
qed

lemma site_lib_round_trip:
  assumes "url_Parse site_lib s = Some h"
  shows "url_Parse site_lib
           (url_String site_lib ((ResolveReference site_lib site_base h)\<lparr>url_Fragment := []\<rparr>))
             = Some ((ResolveReference site_lib site_base h)\<lparr>url_Fragment := []\<rparr>)
         \<and> CHR ''#'' \<notin> set (url_String site_lib
                 ((ResolveReference site_lib site_base h)\<lparr>url_Fragment := []\<rparr>))"
proof -
  from site_lib_resolved [OF assms] obtain q where q: "\<forall>x\<in>set q. x \<noteq> CHR ''#''"
    "(ResolveReference site_lib site_base h)\<lparr>url_Fragment := []\<rparr> = site_url q"
    by blast
  have "CHR ''#'' \<notin> set (''http://h'' @ q)"
    using q(1) by auto
  with site_lib_parse [OF q(1)] show ?thesis
    unfolding q(2) site_lib_string by simp
qed

text \<open>
  C9: when \<^verbatim>\<open>getLinks\<close> returns, its links are, in document order, one per \<^verbatim>\<open><a>\<close> element
  with the element's text, and the target of each is an address, not nil: the address of
  the element's \<^verbatim>\<open>href\<close> resolved against the base with the fragment cleared.  That
  address has a scheme and no fragment, and its string holds no \<open>#\<close>.  The hypotheses
  are the base being absolute and the contract of \<^verbatim>\<open>net/url\<close>: resolving against an
  absolute base gives an absolute URL, and the string of a reference resolved against the
  base, once its fragment is cleared, holds no \<open>#\<close> and parses back to the same URL.
\<close>

theorem getLinks_absolute_no_fragment:
  assumes "getLinks L base n = Inr links"
    and "url_Scheme base \<noteq> []"
    and "\<And>b h. url_Scheme b \<noteq> [] \<Longrightarrow> url_Scheme (ResolveReference L b h) \<noteq> []"
    and "\<And>s h. url_Parse L s = Some h \<Longrightarrow>
           url_Parse L (url_String L ((ResolveReference L base h)\<lparr>url_Fragment := []\<rparr>))
             = Some ((ResolveReference L base h)\<lparr>url_Fragment := []\<rparr>)
           \<and> CHR ''#'' \<notin> set (url_String L ((ResolveReference L base h)\<lparr>url_Fragment := []\<rparr>))"
  shows "list_all2 (\<lambda>a l. \<exists>t addr. link_url L base a = Some t
            \<and> link.Address l = Some addr \<and> addr = address_of L t
            \<and> Scheme addr \<noteq> [] \<and> url_Scheme (URL addr) \<noteq> []
            \<and> url_Fragment (URL addr) = [] \<and> CHR ''#'' \<notin> set (Full addr)
            \<and> Text l = GetText a)
          (GetNodesByTagName ''a'' n) links"
proof -
  have "list_all2 (\<lambda>a l. \<exists>t. link_url L base a = Some t
            \<and> l = MakeAbsoluteLink L (url_String L t) (GetText a)
                    (GetAttribute ''rel'' n = ''nofollow'')
            \<and> url_Fragment t = []) (GetNodesByTagName ''a'' n) links"
    using assms(1) unfolding getLinks_def by (rule getLinks_loop_links)
  then show ?thesis
  proof (rule list_all2_mono)
    fix a l
    assume "\<exists>t. link_url L base a = Some t
            \<and> l = MakeAbsoluteLink L (url_String L t) (GetText a)
                    (GetAttribute ''rel'' n = ''nofollow'')
            \<and> url_Fragment t = []"
    then obtain t where t: "link_url L base a = Some t"
      "l = MakeAbsoluteLink L (url_String L t) (GetText a) (GetAttribute ''rel'' n = ''nofollow'')"
      "url_Fragment t = []" by blast
    from t(1) obtain h where h: "url_Parse L (GetAttribute ''href'' a) = Some h"
      "t = (ResolveReference L base h)\<lparr>url_Fragment := []\<rparr>"
      by (auto simp: link_url_def split: option.splits)
    from assms(4) [OF h(1)] h(2)
    have rt: "url_Parse L (url_String L t) = Some t" and hash: "CHR ''#'' \<notin> set (url_String L t)"
      by simp_all
    from assms(2,3) h(2) have sch: "url_Scheme t \<noteq> []" by simp
    from t(3) have tt: "t\<lparr>url_Fragment := []\<rparr> = t" by simp
    have adr: "link.Address l = Some (address_of L t)"
      by (simp add: t(2) MakeAbsoluteLink_def MakeAddressFromString_def rt tt)
    have tx: "Text l = GetText a"
      by (simp add: t(2) MakeAbsoluteLink_def)
    from t(1) adr sch t(3) hash tx
    show "\<exists>t addr. link_url L base a = Some t
            \<and> link.Address l = Some addr \<and> addr = address_of L t
            \<and> Scheme addr \<noteq> [] \<and> url_Scheme (URL addr) \<noteq> []
            \<and> url_Fragment (URL addr) = [] \<and> CHR ''#'' \<notin> set (Full addr)
            \<and> Text l = GetText a"
      by (simp add: address_of_def)
  qed
qed

theorem getLinks_absolute_no_fragment_witness:
  "\<exists>l t. getLinks site_lib site_base fragment_doc = Inr [l]
     \<and> url_Scheme site_base \<noteq> []
     \<and> GetNodesByTagName ''a'' fragment_doc = [fragment_a]
     \<and> GetAttribute ''href'' fragment_a = ''/x#top''
     \<and> link_url site_lib site_base fragment_a = Some t
     \<and> link.Address l = Some (site_addr ''/x'')
     \<and> Full (site_addr ''/x'') = ''http://h/x''
     \<and> CHR ''#'' \<notin> set (Full (site_addr ''/x''))
     \<and> url_Fragment (URL (site_addr ''/x'')) = []
     \<and> Scheme (site_addr ''/x'') = ''http''"
proof -
  obtain l where a: "getLinks site_lib site_base fragment_doc = Inr [l]"
    by (simp add: fragment_doc_def fragment_a_def getLinks_def site_lib_def Let_def)
  have b: "url_Scheme site_base \<noteq> []"
    by (simp add: site_base_def)
  have c: "\<And>b h. url_Scheme b \<noteq> [] \<Longrightarrow> url_Scheme (ResolveReference site_lib b h) \<noteq> []"
    by (simp add: site_lib_def)
  have d: "GetNodesByTagName ''a'' fragment_doc = [fragment_a]"
    by (simp add: fragment_doc_def fragment_a_def)
  have e: "GetAttribute ''href'' fragment_a = ''/x#top''"
    by (simp add: fragment_a_def)
  have f: "link_url site_lib site_base fragment_a = Some (site_url ''/x'')"
    by (simp add: link_url_def fragment_a_def site_lib_def site_base_def site_url_def)
  have g: "address_of site_lib (site_url ''/x'') = site_addr ''/x''"
    by (simp add: address_of_def site_lib_def site_url_def site_addr_def)
  from getLinks_absolute_no_fragment [OF a b c site_lib_round_trip] d f g
  have h: "link.Address l = Some (site_addr ''/x'')
     \<and> CHR ''#'' \<notin> set (Full (site_addr ''/x''))
     \<and> url_Fragment (URL (site_addr ''/x'')) = []"
    by simp
  have i: "Full (site_addr ''/x'') = ''http://h/x''" "Scheme (site_addr ''/x'') = ''http''"
    by (simp_all add: site_addr_def)
  from a b d e f h i show ?thesis by blast
qed

subsection \<open>No URL twice\<close>

lemma merge_node_cases:
  "merge_node c n = c \<or>
   (\<exists>a. link.Address n = Some a \<and> Seen c (Full a) = None
      \<and> merge_node c n = c\<lparr>Seen := (Seen c)(Full a \<mapsto> True), nextqueue := nextqueue c @ [n]\<rparr>)"
  by (auto simp: merge_node_def split: option.splits)

lemma merge_step_cases:
  assumes "merge_step m s = Some s1"
  shows "(\<exists>n ns. s1 = s\<lparr>crw := merge_node (crw s) n, merges := (merges s)[m := MLoop ns]\<rparr>)
       \<or> s1 = s\<lparr>crw := (crw s)\<lparr>wg := wg (crw s) - 1\<rparr>, merges := (merges s)[m := MDone]\<rparr>"
  using assms
  by (auto simp: merge_step_def split: if_splits merge_task.splits list.splits)

lemma dedup_frame:
  assumes "tracked s1 = tracked s" and "Seen (crw s1) = Seen (crw s)"
    and "sched_shape s1 = sched_shape s" and "emitted s1 = emitted s"
    and "fetches s1 = fetches s"
  shows "dedup_inv s1 = dedup_inv s"
  by (simp add: dedup_inv_def all_seen_def results_of_fetches_def sent_urls_def assms)

lemma merge_node_same_dedup:
  "dedup_inv s \<Longrightarrow> dedup_inv (s\<lparr>crw := crw s, merges := x\<rparr>)"
  by (subst dedup_frame [where s = s])
     (simp_all add: tracked_def pending_def sched_shape_def emitted_def)

lemma wg_dedup:
  "dedup_inv s \<Longrightarrow> dedup_inv (s\<lparr>crw := (crw s)\<lparr>wg := w\<rparr>, merges := x\<rparr>)"
  by (subst dedup_frame [where s = s])
     (simp_all add: tracked_def pending_def sched_shape_def emitted_def)

lemma merge_append_dedup:
  assumes inv: "dedup_inv s" and a: "link.Address n = Some a" "Seen (crw s) (Full a) = None"
  shows "dedup_inv (s\<lparr>crw := (crw s)\<lparr>Seen := (Seen (crw s))(Full a \<mapsto> True),
             nextqueue := nextqueue (crw s) @ [n]\<rparr>, merges := x\<rparr>)" (is "dedup_inv ?s1")
proof -
  have tr: "tracked ?s1 = tracked s @ [n]"
    by (simp add: tracked_def pending_def)
  have fresh: "node_url n \<notin> set (map node_url (tracked s))"
  proof
    assume "node_url n \<in> set (map node_url (tracked s))"
    then obtain k where k: "k \<in> set (tracked s)" "node_url k = node_url n" by auto
    with inv obtain b where "link.Address k = Some b" "Seen (crw s) (Full b) \<noteq> None"
      by (auto simp: dedup_inv_def all_seen_def)
    with k a show False by (simp add: node_url_def)
  qed
  from inv fresh have d: "distinct (map node_url (tracked ?s1))"
    unfolding tr by (simp add: dedup_inv_def)
  from inv a have s: "all_seen ?s1"
    unfolding all_seen_def tr by (auto simp: dedup_inv_def all_seen_def)
  have "sched_shape ?s1 = sched_shape s"
    by (simp add: sched_shape_def)
  with inv have sh: "sched_shape ?s1"
    by (simp add: dedup_inv_def)
  have "results_of_fetches ?s1 = results_of_fetches s"
    by (simp add: results_of_fetches_def sent_urls_def emitted_def)
  with inv have r: "results_of_fetches ?s1"
    by (simp add: dedup_inv_def)
  from d s sh r show ?thesis by (simp add: dedup_inv_def)
qed

lemma merge_step_dedup:
  assumes "dedup_inv s" and "merge_step m s = Some s1"
  shows "dedup_inv s1"
proof -
  from merge_step_cases [OF assms(2)] show ?thesis
  proof (elim disjE exE)
    fix n ns
    assume s1: "s1 = s\<lparr>crw := merge_node (crw s) n, merges := (merges s)[m := MLoop ns]\<rparr>"
    from merge_node_cases [of "crw s" n] show ?thesis
    proof (elim disjE exE conjE)
      assume "merge_node (crw s) n = crw s"
      with s1 merge_node_same_dedup [OF assms(1)] show ?thesis by simp
    next
      fix a
      assume "link.Address n = Some a" "Seen (crw s) (Full a) = None"
        "merge_node (crw s) n = (crw s)\<lparr>Seen := (Seen (crw s))(Full a \<mapsto> True),
             nextqueue := nextqueue (crw s) @ [n]\<rparr>"
      with s1 merge_append_dedup [OF assms(1)] show ?thesis by simp
    qed
  next
    assume "s1 = s\<lparr>crw := (crw s)\<lparr>wg := wg (crw s) - 1\<rparr>, merges := (merges s)[m := MDone]\<rparr>"
    with wg_dedup [OF assms(1)] show ?thesis by simp
  qed
qed

lemma merge_recv_dedup:
  assumes "dedup_inv s" and "merge_recv m j s = Some s1"
  shows "dedup_inv s1"
proof -
  from assms(2) obtain x y where "s1 = s\<lparr>merges := x, sends := y\<rparr>"
    by (auto simp: merge_recv_def split: if_splits merge_task.splits option.splits)
  then have "dedup_inv s1 = dedup_inv s"
    by (intro dedup_frame) (simp_all add: tracked_def pending_def sched_shape_def emitted_def)
  with assms(1) show ?thesis by simp
qed

lemma consumer_next_dedup:
  assumes "dedup_inv s" and "consumer_next s = Some s1"
  shows "dedup_inv s1"
proof -
  from assms(2) obtain r rs where "results (crw s) = r # rs"
    "s1 = s\<lparr>crw := (crw s)\<lparr>results := rs\<rparr>, delivered := delivered s @ [r]\<rparr>"
    by (auto simp: consumer_next_def split: list.splits)
  then have "dedup_inv s1 = dedup_inv s"
    by (intro dedup_frame) (simp_all add: tracked_def pending_def sched_shape_def emitted_def)
  with assms(1) show ?thesis by simp
qed


lemma map_fnode_update:
  "i < length ts \<Longrightarrow> map fnode (ts[i := (ts ! i)\<lparr>fpc := p\<rparr>]) = map fnode ts"
  by (simp add: map_update list_update_same_conv)

lemma set_update_fpc:
  assumes "t \<in> set (ts[i := (ts ! i)\<lparr>fpc := p\<rparr>])"
  shows "t \<in> set ts \<or> t = (ts ! i)\<lparr>fpc := p\<rparr>"
  using assms set_update_subset_insert [of ts i "(ts ! i)\<lparr>fpc := p\<rparr>"] by auto

lemma sent_urls_update:
  assumes i: "i < length (fetches s)"
    and f: "fetches s1 = (fetches s)[i := (fetches s ! i)\<lparr>fpc := p\<rparr>]"
  shows "sent_urls s1 =
     (if p = FReturn \<or> p = FDone then {#node_url (fnode (fetches s ! i))#} else {#})
     + (sent_urls s - (if sent (fetches s ! i) then {#node_url (fnode (fetches s ! i))#} else {#}))"
proof -
  let ?t = "fetches s ! i"
  let ?u = "\<lambda>t. node_url (fnode t)"
  have m: "mset (fetches s1) = add_mset (?t\<lparr>fpc := p\<rparr>) (mset (fetches s) - {#?t#})"
    unfolding f using i by (rule mset_update)
  have in_t: "?t \<in># mset (fetches s)" using i by simp
  show ?thesis
  proof (cases "sent ?t")
    case True
    then have "?t \<in># filter_mset sent (mset (fetches s))" using in_t by simp
    then have "image_mset ?u (filter_mset sent (mset (fetches s)) - {#?t#})
        = image_mset ?u (filter_mset sent (mset (fetches s))) - {#?u ?t#}"
      by (simp add: image_mset_Diff)
    with True m show ?thesis
      by (simp add: sent_urls_def sent_def filter_diff_mset)
  next
    case False
    with m show ?thesis
      by (simp add: sent_urls_def sent_def filter_diff_mset)
  qed
qed

lemma fetch_pc_update_dedup:
  assumes inv: "dedup_inv s" and i: "i < length (fetches s)"
    and f: "fetches s1 = (fetches s)[i := (fetches s ! i)\<lparr>fpc := p\<rparr>]"
    and r: "results_of_fetches s1"
    and q: "queue (crw s1) = queue (crw s)" "nextqueue (crw s1) = nextqueue (crw s)"
      "Seen (crw s1) = Seen (crw s)" "next_fn s1 = next_fn s"
  shows "dedup_inv s1"
proof -
  have tr: "tracked s1 = tracked s"
    using f q i by (simp add: tracked_def pending_def map_fnode_update)
  from inv tr q have "distinct (map node_url (tracked s1))" "all_seen s1" "sched_shape s1"
    by (simp_all add: dedup_inv_def all_seen_def sched_shape_def)
  with r show ?thesis by (simp add: dedup_inv_def)
qed

lemma fsend_update:
  assumes inv: "dedup_inv s"
    and f: "fetches s1 = (fetches s)[i := (fetches s ! i)\<lparr>fpc := p\<rparr>]"
    and p: "\<forall>r. p = FSend r \<longrightarrow> result_url r = node_url (fnode (fetches s ! i))"
  shows "\<forall>t \<in> set (fetches s1). \<forall>r. fpc t = FSend r \<longrightarrow> result_url r = node_url (fnode t)"
proof (intro ballI allI impI)
  fix t r
  assume t: "t \<in> set (fetches s1)" and pc: "fpc t = FSend r"
  from t f have "t \<in> set (fetches s) \<or> t = (fetches s ! i)\<lparr>fpc := p\<rparr>"
    by (auto dest: set_update_fpc)
  then show "result_url r = node_url (fnode t)"
  proof
    assume "t \<in> set (fetches s)"
    with inv pc show ?thesis by (auto simp: dedup_inv_def results_of_fetches_def)
  next
    assume "t = (fetches s ! i)\<lparr>fpc := p\<rparr>"
    with pc p show ?thesis by simp
  qed
qed

lemma fetch_result_url:
  "fetch L n a got = (Some r, nodes) \<Longrightarrow> link.Address n = Some a \<Longrightarrow> result_url r = node_url n"
  by (auto simp: fetch_def Let_def result_url_def node_url_def Hydrate_page_def MakeResult_def
      split: option.splits prod.splits if_splits)


lemma fetch_get_cases:
  assumes "fetch_get L i net s = Some s1"
  shows "i < length (fetches s) \<and> fpc (fetches s ! i) = FGet \<and>
    (s1 = s\<lparr>panicked := Some NilDereference\<rparr>
     \<or> (\<exists>nodes. s1 = s\<lparr>fetches := (fetches s)[i := (fetches s ! i)\<lparr>fpc := FReturn\<rparr>],
                 sends := sends s @ [Some nodes]\<rparr>)
     \<or> (\<exists>a r nodes. link.Address (fnode (fetches s ! i)) = Some a
           \<and> fetch L (fnode (fetches s ! i)) a (net (Full a)) = (Some r, nodes)
           \<and> s1 = s\<lparr>fetches := (fetches s)[i := (fetches s ! i)\<lparr>fpc := FSend r\<rparr>],
                 sends := sends s @ [Some nodes]\<rparr>))"
  using assms
  by (auto simp: fetch_get_def Let_def split: if_splits option.splits prod.splits fetch_pc.splits)

lemma fetch_get_dedup:
  assumes inv: "dedup_inv s" and st: "fetch_get L i net s = Some s1"
  shows "dedup_inv s1"
proof -
  let ?t = "fetches s ! i"
  from fetch_get_cases [OF st] have i: "i < length (fetches s)" and pc: "fpc ?t = FGet"
    by simp_all
  from pc have ns: "\<not> sent ?t" by (simp add: sent_def)
  from inv have sub: "mset (map result_url (emitted s)) \<subseteq># sent_urls s"
    by (simp add: dedup_inv_def results_of_fetches_def)
  from fetch_get_cases [OF st] consider
      (panic) "s1 = s\<lparr>panicked := Some NilDereference\<rparr>"
    | (fail) nodes where
        "s1 = s\<lparr>fetches := (fetches s)[i := ?t\<lparr>fpc := FReturn\<rparr>], sends := sends s @ [Some nodes]\<rparr>"
    | (ok) a r nodes where "link.Address (fnode ?t) = Some a"
        "fetch L (fnode ?t) a (net (Full a)) = (Some r, nodes)"
        "s1 = s\<lparr>fetches := (fetches s)[i := ?t\<lparr>fpc := FSend r\<rparr>], sends := sends s @ [Some nodes]\<rparr>"
    by blast
  then show ?thesis
  proof cases
    case panic
    then have "dedup_inv s1 = dedup_inv s"
      by (intro dedup_frame) (simp_all add: tracked_def pending_def sched_shape_def emitted_def)
    with inv show ?thesis by simp
  next
    case fail
    then have f: "fetches s1 = (fetches s)[i := ?t\<lparr>fpc := FReturn\<rparr>]" by simp
    have su: "sent_urls s1 = {#node_url (fnode ?t)#} + sent_urls s"
      using sent_urls_update [OF i f] ns by simp
    have em: "emitted s1 = emitted s" using fail by (simp add: emitted_def)
    have "mset (map result_url (emitted s1)) \<subseteq># sent_urls s1"
      unfolding su em using sub by (simp add: subseteq_mset_def le_SucI)
    moreover have "\<forall>t \<in> set (fetches s1). \<forall>r. fpc t = FSend r \<longrightarrow> result_url r = node_url (fnode t)"
      using inv f by (rule fsend_update) simp
    ultimately have "results_of_fetches s1" by (simp add: results_of_fetches_def)
    from inv i f this show ?thesis
      by (rule fetch_pc_update_dedup) (simp_all add: fail)
  next
    case ok
    then have f: "fetches s1 = (fetches s)[i := ?t\<lparr>fpc := FSend r\<rparr>]" by simp
    have su: "sent_urls s1 = sent_urls s"
      using sent_urls_update [OF i f] ns by simp
    have em: "emitted s1 = emitted s" using ok by (simp add: emitted_def)
    have "mset (map result_url (emitted s1)) \<subseteq># sent_urls s1"
      unfolding su em using sub .
    moreover have "\<forall>t \<in> set (fetches s1). \<forall>r. fpc t = FSend r \<longrightarrow> result_url r = node_url (fnode t)"
      using inv f by (rule fsend_update) (use fetch_result_url [OF ok(2) ok(1)] in simp)
    ultimately have "results_of_fetches s1" by (simp add: results_of_fetches_def)
    from inv i f this show ?thesis
      by (rule fetch_pc_update_dedup) (simp_all add: ok)
  qed
qed

lemma fetch_send_cases:
  assumes "fetch_send i s = Some s1"
  shows "\<exists>r. i < length (fetches s) \<and> fpc (fetches s ! i) = FSend r \<and>
    (s1 = s\<lparr>panicked := Some SendOnClosedChannel\<rparr>
     \<or> s1 = s\<lparr>crw := (crw s)\<lparr>results := results (crw s) @ [r]\<rparr>,
                    fetches := (fetches s)[i := (fetches s ! i)\<lparr>fpc := FReturn\<rparr>]\<rparr>)"
  using assms
  by (auto simp: fetch_send_def Let_def split: if_splits fetch_pc.splits)

lemma fetch_send_dedup:
  assumes inv: "dedup_inv s" and st: "fetch_send i s = Some s1"
  shows "dedup_inv s1"
proof -
  let ?t = "fetches s ! i"
  from fetch_send_cases [OF st] obtain r where i: "i < length (fetches s)"
    and pc: "fpc ?t = FSend r"
    and c: "s1 = s\<lparr>panicked := Some SendOnClosedChannel\<rparr>
     \<or> s1 = s\<lparr>crw := (crw s)\<lparr>results := results (crw s) @ [r]\<rparr>,
                    fetches := (fetches s)[i := ?t\<lparr>fpc := FReturn\<rparr>]\<rparr>" by blast
  from pc have ns: "\<not> sent ?t" by (simp add: sent_def)
  from inv have sub: "mset (map result_url (emitted s)) \<subseteq># sent_urls s"
    by (simp add: dedup_inv_def results_of_fetches_def)
  from c show ?thesis
  proof
    assume "s1 = s\<lparr>panicked := Some SendOnClosedChannel\<rparr>"
    then have "dedup_inv s1 = dedup_inv s"
      by (intro dedup_frame) (simp_all add: tracked_def pending_def sched_shape_def emitted_def)
    with inv show ?thesis by simp
  next
    assume s1: "s1 = s\<lparr>crw := (crw s)\<lparr>results := results (crw s) @ [r]\<rparr>,
                    fetches := (fetches s)[i := ?t\<lparr>fpc := FReturn\<rparr>]\<rparr>"
    then have f: "fetches s1 = (fetches s)[i := ?t\<lparr>fpc := FReturn\<rparr>]" by simp
    have ru: "result_url r = node_url (fnode ?t)"
      using inv i pc by (auto simp: dedup_inv_def results_of_fetches_def)
    have su: "sent_urls s1 = {#node_url (fnode ?t)#} + sent_urls s"
      using sent_urls_update [OF i f] ns by simp
    have em: "mset (map result_url (emitted s1)) = {#result_url r#} + mset (map result_url (emitted s))"
      using s1 by (simp add: emitted_def)
    have "mset (map result_url (emitted s1)) \<subseteq># sent_urls s1"
      unfolding su em ru using sub by simp
    moreover have "\<forall>t \<in> set (fetches s1). \<forall>r. fpc t = FSend r \<longrightarrow> result_url r = node_url (fnode t)"
      using inv f by (rule fsend_update) simp
    ultimately have "results_of_fetches s1" by (simp add: results_of_fetches_def)
    from inv i f this show ?thesis
      by (rule fetch_pc_update_dedup) (simp_all add: s1)
  qed
qed

lemma fetch_return_cases:
  assumes "fetch_return i s = Some s1"
  shows "i < length (fetches s) \<and> fpc (fetches s ! i) = FReturn \<and>
     s1 = s\<lparr>crw := (crw s)\<lparr>connections := connections (crw s) - 1\<rparr>,
                    fetches := (fetches s)[i := (fetches s ! i)\<lparr>fpc := FDone\<rparr>]\<rparr>"
  using assms
  by (auto simp: fetch_return_def Let_def split: if_splits fetch_pc.splits)

lemma fetch_return_dedup:
  assumes inv: "dedup_inv s" and st: "fetch_return i s = Some s1"
  shows "dedup_inv s1"
proof -
  let ?t = "fetches s ! i"
  from fetch_return_cases [OF st] have i: "i < length (fetches s)"
    and pc: "fpc ?t = FReturn"
    and s1: "s1 = s\<lparr>crw := (crw s)\<lparr>connections := connections (crw s) - 1\<rparr>,
                    fetches := (fetches s)[i := ?t\<lparr>fpc := FDone\<rparr>]\<rparr>" by simp_all
  from s1 have f: "fetches s1 = (fetches s)[i := ?t\<lparr>fpc := FDone\<rparr>]" by simp
  from pc have st: "sent ?t" by (simp add: sent_def)
  from inv have sub: "mset (map result_url (emitted s)) \<subseteq># sent_urls s"
    by (simp add: dedup_inv_def results_of_fetches_def)
  have "?t \<in># filter_mset sent (mset (fetches s))"
    using i st by simp
  then have "node_url (fnode ?t) \<in># sent_urls s"
    unfolding sent_urls_def by (metis image_eqI in_image_mset)
  then have su: "sent_urls s1 = sent_urls s"
    using sent_urls_update [OF i f] st by simp
  have em: "emitted s1 = emitted s" using s1 by (simp add: emitted_def)
  have "mset (map result_url (emitted s1)) \<subseteq># sent_urls s1"
    unfolding su em using sub .
  moreover have "\<forall>t \<in> set (fetches s1). \<forall>r. fpc t = FSend r \<longrightarrow> result_url r = node_url (fnode t)"
    using inv f by (rule fsend_update) simp
  ultimately have "results_of_fetches s1" by (simp add: results_of_fetches_def)
  from inv i f this show ?thesis
    by (rule fetch_pc_update_dedup) (simp_all add: s1)
qed


lemma dedup_sched:
  assumes inv: "dedup_inv s"
    and d: "distinct (map node_url (tracked s1))"
    and sub: "set (tracked s1) \<subseteq> set (tracked s)"
    and q: "Seen (crw s1) = Seen (crw s)" "emitted s1 = emitted s" "fetches s1 = fetches s"
    and sh: "sched_shape s1"
  shows "dedup_inv s1"
proof -
  from inv sub q have "all_seen s1"
    by (auto simp: dedup_inv_def all_seen_def)
  moreover from inv q have "results_of_fetches s1"
    by (simp add: dedup_inv_def results_of_fetches_def sent_urls_def)
  ultimately show ?thesis using d sh by (simp add: dedup_inv_def)
qed

lemma dedup_sched_same:
  assumes inv: "dedup_inv s"
    and tr: "tracked s1 = tracked s"
    and q: "Seen (crw s1) = Seen (crw s)" "emitted s1 = emitted s" "fetches s1 = fetches s"
    and sh: "sched_shape s1"
  shows "dedup_inv s1"
  using inv _ _ q sh
  by (rule dedup_sched) (use inv tr in \<open>simp_all add: dedup_inv_def\<close>)

lemma sched_StartQueue_dedup:
  assumes inv: "dedup_inv s" and f: "next_fn s = Some CrawlStartQueue"
    and st: "sched L now net s = Some s1"
  shows "dedup_inv s1"
proof -
  from st f have s1: "s1 = s\<lparr>clock := now, next_fn := crawlStartQueue (crw s)\<rparr>"
    by (auto simp: sched_def Let_def finish_def split: if_splits)
  show ?thesis
    using inv
    by (rule dedup_sched_same)
       (auto simp: s1 f tracked_def pending_def emitted_def sched_shape_def crawlStartQueue_def)
qed

lemma sched_NextQueue_dedup:
  assumes inv: "dedup_inv s" and f: "next_fn s = Some CrawlNextQueue"
    and st: "sched L now net s = Some s1"
  shows "dedup_inv s1"
proof -
  from st f have s1: "s1 = s\<lparr>clock := now,
      crw := (crw s)\<lparr>queue := nextqueue (crw s), nextqueue := []\<rparr>,
      next_fn := Some CrawlStartQueue\<rparr>"
    by (auto simp: sched_def Let_def finish_def crawlNextQueue_def split: if_splits)
  from inv f have e: "queue (crw s) = []"
    by (simp add: dedup_inv_def sched_shape_def)
  show ?thesis
    using inv
    by (rule dedup_sched_same)
       (auto simp: s1 f e tracked_def pending_def emitted_def sched_shape_def)
qed

lemma sched_Start_dedup:
  assumes inv: "dedup_inv s" and f: "next_fn s = Some CrawlStart"
    and st: "sched L now net s = Some s1"
  shows "dedup_inv s1"
proof -
  from st f consider
      (panic) p where "s1 = s\<lparr>clock := now, panicked := Some p\<rparr>"
    | (go) g where "g = CrawlWait \<or> g = CrawlDo" "s1 = s\<lparr>clock := now, next_fn := Some g\<rparr>"
    | (skip) "queue (crw s) \<noteq> []" "s1 = s\<lparr>clock := now, next_fn := Some CrawlNext\<rparr>"
    by (auto simp: sched_def Let_def finish_def crawlStart_def
        split: if_splits list.splits option.splits)
  then show ?thesis
  proof cases
    case panic
    show ?thesis
      using inv
      by (rule dedup_sched_same)
         (auto simp: panic f tracked_def pending_def emitted_def sched_shape_def)
  next
    case go
    show ?thesis
      using inv
      by (rule dedup_sched_same)
         (use go in \<open>auto simp: f tracked_def pending_def emitted_def sched_shape_def\<close>)
  next
    case skip
    from inv f have d: "distinct (map node_url (map fnode (fetches s) @ queue (crw s) @ nextqueue (crw s)))"
      by (simp add: dedup_inv_def tracked_def pending_def)
    from skip(1) obtain n rest where q: "queue (crw s) = n # rest" by (cases "queue (crw s)") auto
    show ?thesis
      using inv
    proof (rule dedup_sched)
      show "distinct (map node_url (tracked s1))"
        using d q by (simp add: skip tracked_def pending_def)
      show "set (tracked s1) \<subseteq> set (tracked s)"
        using q by (auto simp: skip f tracked_def pending_def)
    qed (use skip in \<open>simp_all add: emitted_def sched_shape_def\<close>)
  qed
qed

lemma sched_Wait_dedup:
  assumes inv: "dedup_inv s" and f: "next_fn s = Some CrawlWait"
    and st: "sched L now net s = Some s1"
  shows "dedup_inv s1"
proof -
  from st f obtain k where s1: "s1 = s\<lparr>clock := k, next_fn := Some CrawlStart\<rparr>"
    by (auto simp: sched_def Let_def finish_def crawlWait_def split: if_splits)
  show ?thesis
    using inv
    by (rule dedup_sched_same)
       (auto simp: s1 f tracked_def pending_def emitted_def sched_shape_def)
qed

lemma sched_Next_dedup:
  assumes inv: "dedup_inv s" and f: "next_fn s = Some CrawlNext"
    and st: "sched L now net s = Some s1"
  shows "dedup_inv s1"
proof -
  from inv f have ne: "queue (crw s) \<noteq> []"
    by (simp add: dedup_inv_def sched_shape_def)
  then obtain n rest where q: "queue (crw s) = n # rest" by (cases "queue (crw s)") auto
  from st f q have s1: "s1 = s\<lparr>clock := now, crw := (crw s)\<lparr>queue := rest\<rparr>,
       next_fn := (if rest = [] then Some CrawlAwait else Some CrawlStart)\<rparr>"
    by (auto simp: sched_def Let_def finish_def crawlNext_def split: if_splits)
  show ?thesis
    using inv
    by (rule dedup_sched_same)
       (auto simp: s1 f q tracked_def pending_def emitted_def sched_shape_def)
qed

lemma sched_Await_dedup:
  assumes inv: "dedup_inv s" and f: "next_fn s = Some CrawlAwait"
    and st: "sched L now net s = Some s1"
  shows "dedup_inv s1"
proof -
  from st f have s1: "s1 = s\<lparr>clock := now, next_fn := Some CrawlNextQueue\<rparr>"
    by (auto simp: sched_def Let_def finish_def crawlAwait_def split: if_splits)
  from inv f have e: "queue (crw s) = []"
    by (simp add: dedup_inv_def sched_shape_def)
  show ?thesis
    using inv
    by (rule dedup_sched_same)
       (auto simp: s1 f e tracked_def pending_def emitted_def sched_shape_def)
qed

lemma sched_None_dedup:
  assumes inv: "dedup_inv s" and f: "next_fn s = None"
    and st: "sched L now net s = Some s1"
  shows "dedup_inv s1"
proof -
  from st f have s1: "s1 = s\<lparr>clock := now, closed := True\<rparr>"
    by (auto simp: sched_def Let_def split: if_splits)
  show ?thesis
    using inv
    by (rule dedup_sched_same)
       (auto simp: s1 f tracked_def pending_def emitted_def sched_shape_def)
qed


lemma sched_Do_dedup:
  assumes inv: "dedup_inv s" and f: "next_fn s = Some CrawlDo"
    and st: "sched L now net s = Some s1"
  shows "dedup_inv s1"
proof -
  from st f consider
      (panic) "s1 = s\<lparr>clock := now, panicked := Some IndexOutOfRange\<rparr>"
    | (spawn) n rest where "queue (crw s) = n # rest"
        "s1 = s\<lparr>clock := now,
               crw := (crw s)\<lparr>connections := connections (crw s) + 1,
                              LastRequestTime := Some now, wg := wg (crw s) + 1\<rparr>,
               fetches := fetches s @ [\<lparr>fnode = n, fpc = FGet\<rparr>],
               merges := merges s @ [MRecv],
               next_fn := Some CrawlNext\<rparr>"
    by (auto simp: sched_def Let_def finish_def crawlDo_def split: if_splits list.splits)
  then show ?thesis
  proof cases
    case panic
    show ?thesis
      using inv
      by (rule dedup_sched_same)
         (auto simp: panic f tracked_def pending_def emitted_def sched_shape_def)
  next
    case spawn
    have tr: "tracked s1 = tracked s"
      using spawn f by (simp add: tracked_def pending_def)
    from inv tr spawn have a: "distinct (map node_url (tracked s1))" "all_seen s1"
      by (simp_all add: dedup_inv_def all_seen_def)
    have sh: "sched_shape s1"
      using spawn by (simp add: sched_shape_def)
    have su: "sent_urls s1 = sent_urls s"
      using spawn by (simp add: sent_urls_def sent_def)
    have em: "emitted s1 = emitted s"
      using spawn by (simp add: emitted_def)
    from inv have "results_of_fetches s1"
      unfolding results_of_fetches_def su em
      using spawn by (auto simp: dedup_inv_def results_of_fetches_def)
    with a sh show ?thesis by (simp add: dedup_inv_def)
  qed
qed

lemma sched_dedup:
  assumes inv: "dedup_inv s" and st: "sched L now net s = Some s1"
  shows "dedup_inv s1"
proof (cases "next_fn s")
  case None
  with inv st show ?thesis by (blast intro: sched_None_dedup)
next
  case (Some g)
  from inv have "next_fn s \<noteq> Some CrawlCheckRobots"
    by (simp add: dedup_inv_def sched_shape_def)
  with Some inv st show ?thesis
    by (cases g)
       (blast intro: sched_StartQueue_dedup sched_NextQueue_dedup sched_Start_dedup
          sched_Wait_dedup sched_Next_dedup sched_Do_dedup sched_Await_dedup)+
qed

lemma step_dedup:
  assumes "dedup_inv s" and "step L e s = Some s1"
  shows "dedup_inv s1"
proof (cases e)
  case (Sched now net)
  with assms show ?thesis by (auto simp: step_def split: if_splits intro: sched_dedup)
next
  case (Get i net)
  with assms show ?thesis by (auto simp: step_def split: if_splits intro: fetch_get_dedup)
next
  case (Send i)
  with assms show ?thesis by (auto simp: step_def split: if_splits intro: fetch_send_dedup)
next
  case (Return i)
  with assms show ?thesis by (auto simp: step_def split: if_splits intro: fetch_return_dedup)
next
  case (Recv m j)
  with assms show ?thesis by (auto simp: step_def split: if_splits intro: merge_recv_dedup)
next
  case (Merge m)
  with assms show ?thesis by (auto simp: step_def split: if_splits intro: merge_step_dedup)
next
  case Next
  with assms show ?thesis by (auto simp: step_def split: if_splits intro: consumer_next_dedup)
qed

lemma exec_dedup: "dedup_inv s \<Longrightarrow> exec L es s = Some s1 \<Longrightarrow> dedup_inv s1"
proof (induction es arbitrary: s)
  case Nil
  then show ?case by simp
next
  case (Cons e es)
  then show ?case by (auto split: option.splits dest: step_dedup)
qed

lemma seed_Seen_mono: "seed_Seen m q = Some m1 \<Longrightarrow> m k \<noteq> None \<Longrightarrow> m1 k \<noteq> None"
proof (induction q arbitrary: m)
  case Nil
  then show ?case by simp
next
  case (Cons v q)
  from Cons.prems(1) obtain a where a: "link.Address v = Some a"
    "seed_Seen (m(Full a \<mapsto> True)) q = Some m1"
    by (auto split: option.splits)
  from Cons.prems(2) have "(m(Full a \<mapsto> True)) k \<noteq> None" by auto
  with a(2) show ?case by (rule Cons.IH)
qed

lemma seed_Seen_all:
  "seed_Seen m q = Some m1 \<Longrightarrow> v \<in> set q \<Longrightarrow> \<exists>a. link.Address v = Some a \<and> m1 (Full a) \<noteq> None"
proof (induction q arbitrary: m)
  case Nil
  then show ?case by simp
next
  case (Cons w q)
  from Cons.prems(1) obtain a where a: "link.Address w = Some a"
    "seed_Seen (m(Full a \<mapsto> True)) q = Some m1"
    by (auto split: option.splits)
  show ?case
  proof (cases "v = w")
    case True
    have "(m(Full a \<mapsto> True)) (Full a) \<noteq> None" by simp
    with a(2) have "m1 (Full a) \<noteq> None" by (rule seed_Seen_mono)
    with True a(1) show ?thesis by simp
  next
    case False
    with Cons.prems(2) have "v \<in> set q" by simp
    with a(2) show ?thesis by (rule Cons.IH)
  qed
qed

lemma distinct_mset_le:
  assumes "mset xs \<subseteq># mset ys" and "distinct ys"
  shows "distinct xs"
  unfolding distinct_count_atmost_1
proof
  fix a
  from assms(1) have "count (mset xs) a \<le> count (mset ys) a"
    by (rule mset_subset_eq_count)
  moreover from assms(2) have "count (mset ys) a \<le> 1"
    by (simp add: distinct_count_atmost_1)
  ultimately have le: "count (mset xs) a \<le> 1" by simp
  show "count (mset xs) a = (if a \<in> set xs then 1 else 0)"
  proof (cases "a \<in> set xs")
    case True
    with le show ?thesis by (auto simp: le_Suc_eq count_eq_zero_iff)
  next
    case False
    then show ?thesis by simp
  qed
qed

lemma CrawlList_dedup:
  assumes "CrawlList L config q = Inr s" and "distinct (map node_url q)"
  shows "dedup_inv s"
proof -
  from assms(1) obtain m where m: "seed_Seen Map.empty q = Some m"
    and s: "tracked s = q" "Seen (crw s) = m" "next_fn s = Some CrawlStartQueue"
      "emitted s = []" "fetches s = []"
    by (auto simp: CrawlList_def Let_def tracked_def pending_def emitted_def
        split: if_splits option.splits)
  from seed_Seen_all [OF m] s have "all_seen s"
    by (auto simp: all_seen_def)
  with assms(2) s show ?thesis
    by (simp add: dedup_inv_def sched_shape_def results_of_fetches_def sent_urls_def)
qed

lemma dedup_inv_emitted:
  assumes "dedup_inv s"
  shows "distinct (map result_url (emitted s))" and "distinct (map node_url (map fnode (fetches s)))"
proof -
  from assms show f: "distinct (map node_url (map fnode (fetches s)))"
    by (simp add: dedup_inv_def tracked_def)
  have "sent_urls s \<subseteq># image_mset (\<lambda>t. node_url (fnode t)) (mset (fetches s))"
    unfolding sent_urls_def by (rule image_mset_subseteq_mono) simp
  moreover from assms have "mset (map result_url (emitted s)) \<subseteq># sent_urls s"
    by (simp add: dedup_inv_def results_of_fetches_def)
  ultimately have "mset (map result_url (emitted s)) \<subseteq># mset (map node_url (map fnode (fetches s)))"
    by (simp add: comp_def subset_mset.order_trans)
  then show "distinct (map result_url (emitted s))"
    using f by (rule distinct_mset_le)
qed

text \<open>The newest revision: its seeds are in \<^verbatim>\<open>seen\<close> before the crawl starts, and its
  \<^verbatim>\<open>merge\<close> keeps the next-level queue free of repeats.\<close>

lemma seed_seen_keeps: "m k \<noteq> None \<Longrightarrow> seed_seen m q k \<noteq> None"
proof (induction q arbitrary: m)
  case Nil
  then show ?case by simp
next
  case (Cons b q)
  from Cons.prems have "(m(Full b \<mapsto> True)) k \<noteq> None" by auto
  then have "seed_seen (m(Full b \<mapsto> True)) q k \<noteq> None" by (rule Cons.IH)
  then show ?case by simp
qed

lemma seed_seen_all: "a \<in> set q \<Longrightarrow> seed_seen m q (Full a) \<noteq> None"
proof (induction q arbitrary: m)
  case Nil
  then show ?case by simp
next
  case (Cons b q)
  show ?case
  proof (cases "a = b")
    case True
    have "(m(Full b \<mapsto> True)) (Full b) \<noteq> None" by simp
    then have "seed_seen (m(Full b \<mapsto> True)) q (Full b) \<noteq> None"
      by (rule seed_seen_keeps)
    with True show ?thesis by simp
  next
    case False
    with Cons.prems have "a \<in> set q" by simp
    then have "seed_seen (m(Full b \<mapsto> True)) q (Full a) \<noteq> None" by (rule Cons.IH)
    then show ?thesis by simp
  qed
qed

lemma d_CrawlList_seeds_seen:
  assumes "d_CrawlList L config q = Inr c" and "a \<in> set q"
  shows "seen c (Full a) \<noteq> None"
  using assms seed_seen_all [of a q Map.empty]
  by (auto simp: d_CrawlList_def split: if_splits option.splits)

lemma merge_loop_queued_ok:
  "d_queued_ok c \<Longrightarrow> d_queued_ok (merge_loop c links)"
proof (induction links arbitrary: c)
  case Nil
  then show ?case by simp
next
  case (Cons l links)
  show ?case
  proof (cases "link.Address l")
    case None
    with Cons show ?thesis by simp
  next
    case (Some a)
    show ?thesis
    proof (cases "willCrawl (d_include c) (d_exclude c) (Full a) \<and> seen c (Full a) = None
                  \<and> \<not> (Nofollow l \<and> RespectNofollow (d_Config c))")
      case True
      let ?c1 = "c\<lparr>seen := (seen c)(Full a \<mapsto> True), d_nextqueue := d_nextqueue c @ [a]\<rparr>"
      from True Cons.prems have "d_queued_ok ?c1"
        by (auto simp: d_queued_ok_def)
      then have "d_queued_ok (merge_loop ?c1 links)" by (rule Cons.IH)
      with True Some show ?thesis by simp
    next
      case False
      with Some have "merge_loop c (l # links) = merge_loop c links"
        by (auto split: option.splits)
      with Cons show ?thesis by simp
    qed
  qed
qed

lemma merge_queued_ok: "d_queued_ok c \<Longrightarrow> d_queued_ok (merge c links)"
  by (simp add: merge_def merge_loop_queued_ok)

lemma full_run_urls:
  "run_urls site_lib site_config [site_seed] full_run
     = Some [Some ''http://h/'', Some ''http://h/t'']"
  by (simp add: run_defs full_run_def site_defs step_def sched_defs goroutine_defs)

lemma merge_node_atomic:
  "nextqueue (merge_node c n) = nextqueue c \<and> Seen (merge_node c n) = Seen c
   \<or> (\<exists>a. link.Address n = Some a \<and> Seen c (Full a) = None
        \<and> Seen (merge_node c n) = (Seen c)(Full a \<mapsto> True)
        \<and> nextqueue (merge_node c n) = nextqueue c @ [n])"
  using merge_node_cases [of c n] by auto

text \<open>
  C4 as stated fails: \<^verbatim>\<open>CrawlList\<close> takes the seed list as it is given, and \<^verbatim>\<open>Seen\<close> only
  guards what is added to the next-level queue.  With the seed \<open>http://h/\<close> twice in the
  list both copies are fetched, and two results with that one URL are sent.
\<close>

theorem duplicate_seed_twice:
  "run_urls site_lib site_config [site_seed, site_seed] dup_run
     = Some [Some ''http://h/'', Some ''http://h/'']"
  by (simp add: run_defs dup_run_def site_defs step_def sched_defs goroutine_defs)

text \<open>
  C4, amended: when the seed list holds no URL twice, then in every state the program
  reaches from \<^verbatim>\<open>CrawlList\<close>, under any schedule and any answers of the network: every
  seed was in \<^verbatim>\<open>Seen\<close> before the first state transition; every node on the next-level
  queue is in \<^verbatim>\<open>Seen\<close> (one iteration of \<^verbatim>\<open>merge\<close> appends a node and inserts its URL
  in the same step under the mutex, or does neither); no URL is fetched twice; and no URL
  is the address of two results sent.
\<close>

theorem seen_set_dedup:
  assumes "CrawlList L config q = Inr s0" and "distinct (map node_url q)"
    and "exec L es s0 = Some s"
  shows "(\<forall>v \<in> set q. \<exists>a. link.Address v = Some a \<and> Seen (crw s0) (Full a) \<noteq> None)
     \<and> (\<forall>v \<in> set (nextqueue (crw s)).
           \<exists>a. link.Address v = Some a \<and> Seen (crw s) (Full a) \<noteq> None)
     \<and> (\<forall>c n. nextqueue (merge_node c n) = nextqueue c \<and> Seen (merge_node c n) = Seen c
           \<or> (\<exists>a. link.Address n = Some a \<and> Seen c (Full a) = None
                \<and> Seen (merge_node c n) = (Seen c)(Full a \<mapsto> True)
                \<and> nextqueue (merge_node c n) = nextqueue c @ [n]))
     \<and> distinct (map node_url (map fnode (fetches s)))
     \<and> distinct (map result_url (emitted s))"
proof -
  have i0: "dedup_inv s0"
    using assms(1,2) by (rule CrawlList_dedup)
  then have i: "dedup_inv s"
    using assms(3) by (rule exec_dedup)
  from assms(1) have "tracked s0 = q"
    by (auto simp: CrawlList_def Let_def tracked_def pending_def split: if_splits option.splits)
  with i0 have a: "\<forall>v \<in> set q. \<exists>a. link.Address v = Some a \<and> Seen (crw s0) (Full a) \<noteq> None"
    by (simp add: dedup_inv_def all_seen_def)
  from i have b: "\<forall>v \<in> set (nextqueue (crw s)).
      \<exists>a. link.Address v = Some a \<and> Seen (crw s) (Full a) \<noteq> None"
    by (simp add: dedup_inv_def all_seen_def tracked_def)
  from a b merge_node_atomic dedup_inv_emitted [OF i] show ?thesis
    by (intro conjI allI) assumption+
qed

theorem seen_set_dedup_witness:
  "\<exists>s0 s. CrawlList site_lib site_config [site_seed] = Inr s0
     \<and> distinct (map node_url [site_seed])
     \<and> exec site_lib full_run s0 = Some s
     \<and> distinct (map result_url (emitted s))
     \<and> closed s \<and> results (crw s) = []
     \<and> map node_url (map fnode (fetches s)) = [Some ''http://h/'', Some ''http://h/t'']
     \<and> map result_url (delivered s) = [Some ''http://h/'', Some ''http://h/t'']"
proof -
  let ?init = "projr (CrawlList site_lib site_config [site_seed])"
  let ?fin = "the (exec site_lib full_run ?init)"
  have a: "CrawlList site_lib site_config [site_seed] = Inr ?init"
    by (simp add: site_defs)
  have b: "distinct (map node_url [site_seed])"
    by simp
  have c: "exec site_lib full_run ?init = Some ?fin"
    by (simp add: full_run_def site_defs step_def sched_defs goroutine_defs)
  have d: "closed ?fin \<and> results (crw ?fin) = []
     \<and> map node_url (map fnode (fetches ?fin)) = [Some ''http://h/'', Some ''http://h/t'']
     \<and> map result_url (delivered ?fin) = [Some ''http://h/'', Some ''http://h/t'']"
    by (simp add: full_run_def site_defs step_def sched_defs goroutine_defs run_defs)
  from seen_set_dedup [OF a b c] have e: "distinct (map result_url (emitted ?fin))"
    by (elim conjE)
  note g = conjI [OF a conjI [OF b conjI [OF c conjI [OF e d]]]]
  show ?thesis
    by (rule exI [of _ ?init], rule exI [of _ ?fin]) (rule g)
qed

subsection \<open>The order of the results\<close>

text \<open>
  C1, where the code departs from it: in the state-machine revision the wait group
  counts the merge goroutines, not the fetches, and a fetch hands its nodes to a merge
  before it sends its result.  Under the schedule \<open>race_run\<close> (two connections, the seed
  \<open>/\<close> at depth 0 linking to \<open>/t\<close>) the level is promoted while the fetch of the seed still
  holds its result, and the results reach the consumer with the depths 1, 0.
\<close>

theorem race_depth_out_of_order:
  "run_depths site_lib site_config [site_seed] race_run = Some [1, 0]"
  by (simp add: run_defs race_run_def site_defs step_def sched_defs goroutine_defs)

end
